theory Spec2Isabelle
  imports Complex_Main "HOL-Library.Word" "HOL-Library.Sublist" "HOL-Library.AList"
begin

unbundle bit_operations_syntax

chapter \<open>The favicon service: embedding of the Go sources\<close>

text \<open>
  The development has two parts.  The first part translates the Go functions the
  properties are about into HOL functions, one definition per Go function and under the
  Go name.  The second part states and proves the properties.

  Conventions of the translation.
  \<^item> A Go \<^verbatim>\<open>int\<close>, \<^verbatim>\<open>int64\<close> or \<^verbatim>\<open>time.Duration\<close> is an \<^typ>\<open>int\<close>; the one
    place where the sources multiply a user-supplied integer (the burst default of
    \<^verbatim>\<open>main\<close>) wraps at 64 bits explicitly.
  \<^item> A \<^verbatim>\<open>float64\<close> of the token bucket is a \<^typ>\<open>real\<close>: the model computes with
    exact arithmetic and does not describe rounding.
  \<^item> A \<^verbatim>\<open>time.Time\<close> is a number; every call of \<^verbatim>\<open>time.Now()\<close> in the source is
    an explicit argument of the model, so the clock is an input.
  \<^item> A Go \<^verbatim>\<open>string\<close> or \<^verbatim>\<open>[]byte\<close> is a list of characters resp. bytes; a \<^verbatim>\<open>nil\<close>
    pointer, slice or \<^verbatim>\<open>error\<close> is \<^const>\<open>None\<close>.
  \<^item> Functions of the Go standard library that the repository calls but does not define
    (\<^verbatim>\<open>net.ParseIP\<close>, \<^verbatim>\<open>net.SplitHostPort\<close>, \<^verbatim>\<open>sha256\<close>, the image scaler) are
    arguments of the functions that call them.
\<close>

section \<open>Token bucket and limiter (pkg/ratelimit/ratelimit.go)\<close>

record TokenBucket =
  rate :: real
  capacity :: real
  tokens :: real
  lastUpdate :: real

text \<open>\<^verbatim>\<open>newTokenBucket(rate, capacity)\<close>; the first argument is the reading of \<^verbatim>\<open>time.Now()\<close>.\<close>

definition newTokenBucket :: "real \<Rightarrow> real \<Rightarrow> real \<Rightarrow> TokenBucket" where
  "newTokenBucket now r c = \<lparr>rate = r, capacity = c, tokens = c, lastUpdate = now\<rparr>"

text \<open>
  \<^verbatim>\<open>(b *TokenBucket) allow()\<close>: the bucket is mutated under its mutex, so the model
  returns the answer together with the bucket after the call.
\<close>

definition allow :: "real \<Rightarrow> TokenBucket \<Rightarrow> bool \<times> TokenBucket" where
  "allow now b =
    (let elapsed = now - lastUpdate b;
         b1 = b\<lparr>lastUpdate := now\<rparr>;
         b2 = b1\<lparr>tokens := tokens b1 + elapsed * rate b1\<rparr>;
         b3 = (if tokens b2 > capacity b2 then b2\<lparr>tokens := capacity b2\<rparr> else b2)
     in if tokens b3 \<ge> 1 then (True, b3\<lparr>tokens := tokens b3 - 1\<rparr>) else (False, b3))"

text \<open>
  A sequence of \<^verbatim>\<open>allow()\<close> calls on one bucket, one clock reading per call:
  \<open>allow_results\<close> lists the answers, \<open>allow_states\<close> lists the bucket before the first
  call and after every call.
\<close>

fun allow_results :: "real list \<Rightarrow> TokenBucket \<Rightarrow> bool list" where
  "allow_results [] b = []"
| "allow_results (t # ts) b = fst (allow t b) # allow_results ts (snd (allow t b))"


text \<open>
  The behaviour of one call in the words of the specification: refill by
  \<open>(now - last) \<times> rate\<close>, clamp to the capacity, then take one token iff at least one
  is there.
\<close>

definition refilled :: "real \<Rightarrow> TokenBucket \<Rightarrow> real" where
  "refilled now b = min (capacity b) (tokens b + (now - lastUpdate b) * rate b)"

definition allow_spec :: "real \<Rightarrow> TokenBucket \<Rightarrow> bool \<times> TokenBucket" where
  "allow_spec now b =
    (if 1 \<le> refilled now b
     then (True, b\<lparr>tokens := refilled now b - 1, lastUpdate := now\<rparr>)
     else (False, b\<lparr>tokens := refilled now b, lastUpdate := now\<rparr>))"



record Limiter =
  globalBucket :: "TokenBucket option"
  ipBuckets :: "string \<rightharpoonup> TokenBucket"
  ipRate :: int
  ipBurst :: int

text \<open>
  \<^verbatim>\<open>NewLimiter\<close>; \<^const>\<open>None\<close> is the \<^verbatim>\<open>nil\<close> limiter.  The cleanup ticker and the stop
  channel carry no data and are left out; the cleanup itself is \<open>cleanup\<close> below.
\<close>

definition NewLimiter :: "real \<Rightarrow> int \<Rightarrow> int \<Rightarrow> int \<Rightarrow> int \<Rightarrow> Limiter option" where
  "NewLimiter now globalRate globalBurst ipRate' ipBurst' =
    (if globalRate = 0 \<and> ipRate' = 0 then None
     else Some \<lparr>globalBucket =
                   (if globalRate > 0
                    then Some (newTokenBucket now (of_int globalRate) (of_int globalBurst))
                    else None),
                 ipBuckets = Map.empty, ipRate = ipRate', ipBurst = ipBurst'\<rparr>)"

text \<open>
  \<^verbatim>\<open>getOrCreateIPBucket\<close>: \<^verbatim>\<open>Load\<close>, and on a miss \<^verbatim>\<open>LoadOrStore\<close> of a new bucket.
  The result is the bucket and the limiter holding it.
\<close>

definition getOrCreateIPBucket :: "real \<Rightarrow> string \<Rightarrow> Limiter \<Rightarrow> TokenBucket \<times> Limiter" where
  "getOrCreateIPBucket now ip l =
    (case ipBuckets l ip of
       Some b \<Rightarrow> (b, l)
     | None \<Rightarrow>
         (let bucket = newTokenBucket now (of_int (ipRate l)) (of_int (ipBurst l))
          in (bucket, l\<lparr>ipBuckets := (ipBuckets l)(ip \<mapsto> bucket)\<rparr>)))"

text \<open>
  \<^verbatim>\<open>(l *Limiter) Allow(ip)\<close>.  The three clock readings are those of the global
  bucket's \<^verbatim>\<open>allow\<close>, of a newly created per-IP bucket and of the per-IP bucket's
  \<^verbatim>\<open>allow\<close>.  Buckets are shared pointers, so the bucket after the call is written back.
  The metrics counters are not part of the model.
\<close>

definition Limiter_Allow :: "real \<Rightarrow> real \<Rightarrow> real \<Rightarrow> string \<Rightarrow> Limiter \<Rightarrow> bool \<times> Limiter" where
  "Limiter_Allow tg tc ti ip l =
    (let (passed, l1) =
           (case globalBucket l of
              None \<Rightarrow> (True, l)
            | Some g \<Rightarrow> (fst (allow tg g), l\<lparr>globalBucket := Some (snd (allow tg g))\<rparr>))
     in if \<not> passed then (False, l1)
        else if ipRate l1 > 0 then
          (let (bucket, l2) = getOrCreateIPBucket tc ip l1
           in (fst (allow ti bucket),
               l2\<lparr>ipBuckets := (ipBuckets l2)(ip \<mapsto> snd (allow ti bucket))\<rparr>))
        else (True, l1))"

text \<open>\<^verbatim>\<open>cleanup\<close>: per-IP buckets not used for ten minutes are dropped (seconds).\<close>

definition cleanup :: "real \<Rightarrow> Limiter \<Rightarrow> Limiter" where
  "cleanup now l =
    (let cutoff = now - 600
     in l\<lparr>ipBuckets := (\<lambda>ip. case ipBuckets l ip of
                                 None \<Rightarrow> None
                               | Some b \<Rightarrow> if lastUpdate b < cutoff then None else Some b)\<rparr>)"

text \<open>What happens to a limiter over time: requests and cleanup passes, in any order.\<close>

datatype limiter_event = Request string real real real | Cleanup real

fun limiter_run :: "limiter_event list \<Rightarrow> Limiter \<Rightarrow> bool list" where
  "limiter_run [] l = []"
| "limiter_run (Request ip tg tc ti # es) l =
     fst (Limiter_Allow tg tc ti ip l) # limiter_run es (snd (Limiter_Allow tg tc ti ip l))"
| "limiter_run (Cleanup t # es) l = limiter_run es (cleanup t l)"

text \<open>
  The rate-limiter set-up of \<^verbatim>\<open>main\<close> (cmd/server/main.go, lines 73 to 99): the burst
  defaults to twice the rate, a multiplication of Go \<^verbatim>\<open>int\<close>s, which wraps at 64 bits.
\<close>

definition int64_wrap :: "int \<Rightarrow> int" where
  "int64_wrap x = sint (word_of_int x :: 64 word)"

definition main_rateLimiter :: "real \<Rightarrow> int \<Rightarrow> int \<Rightarrow> int \<Rightarrow> int \<Rightarrow> Limiter option" where
  "main_rateLimiter now rateLimit rateLimitBurst ipRateLimit ipRateLimitBurst =
    (if rateLimit > 0 \<or> ipRateLimit > 0 then
       (let rateLimitBurst' =
              (if rateLimitBurst = 0 \<and> rateLimit > 0 then int64_wrap (rateLimit * 2)
               else rateLimitBurst);
            ipRateLimitBurst' =
              (if ipRateLimitBurst = 0 \<and> ipRateLimit > 0 then int64_wrap (ipRateLimit * 2)
               else ipRateLimitBurst)
        in NewLimiter now rateLimit rateLimitBurst' ipRateLimit ipRateLimitBurst')
     else None)"

section \<open>Image heuristics and resizing (internal/image/process.go)\<close>

text \<open>
  A colour is what \<^verbatim>\<open>Color.RGBA()\<close> returns: four \<^verbatim>\<open>uint32\<close> channels, alpha last.
  An \<^verbatim>\<open>image.Image\<close> is its bounds and its pixel function \<^verbatim>\<open>At\<close>; the \<^verbatim>\<open>nil\<close> image
  is \<^const>\<open>None\<close>.
\<close>

type_synonym color = "32 word \<times> 32 word \<times> 32 word \<times> 32 word"

record Rectangle =
  MinX :: int
  MinY :: int
  MaxX :: int
  MaxY :: int

definition Dx :: "Rectangle \<Rightarrow> int" where
  "Dx r = MaxX r - MinX r"

definition Dy :: "Rectangle \<Rightarrow> int" where
  "Dy r = MaxY r - MinY r"

record Image =
  Bounds :: Rectangle
  At :: "int \<Rightarrow> int \<Rightarrow> color"

text \<open>
  The values a loop \<^verbatim>\<open>for v := lo; v < hi; v += step\<close> runs through.  The steps of the
  source are \<^verbatim>\<open>max(w/20, 1)\<close>, hence positive; for a step that is not positive the Go
  loop would not end and the model yields no value.
\<close>

function positions :: "int \<Rightarrow> int \<Rightarrow> int \<Rightarrow> int list" where
  "positions lo hi step =
     (if lo < hi \<and> 0 < step then lo # positions (lo + step) hi step else [])"
  by pat_completeness auto
termination
  by (relation "measure (\<lambda>(lo, hi, step). nat (hi - lo))") auto

declare positions.simps [simp del]

text \<open>The sample grid of both heuristics: rows outside, columns inside.\<close>

definition samples :: "Rectangle \<Rightarrow> int \<Rightarrow> int \<Rightarrow> (int \<times> int) list" where
  "samples b stepX stepY =
     concat (map (\<lambda>y. map (\<lambda>x. (x, y)) (positions (MinX b) (MaxX b) stepX))
                 (positions (MinY b) (MaxY b) stepY))"

text \<open>
  The loop body of \<^verbatim>\<open>IsNearlyBlank\<close> over the remaining samples, with the running
  \<^verbatim>\<open>count\<close>; \<^verbatim>\<open>return false\<close> leaves the loop at once.
\<close>

fun blank_loop :: "Image \<Rightarrow> (int \<times> int) list \<Rightarrow> nat \<Rightarrow> bool" where
  "blank_loop img [] count = True"
| "blank_loop img ((x, y) # ps) count =
    (case At img x y of (r, g, bb, a) \<Rightarrow>
       if a \<ge> 0x8000 then
         (let r8 = drop_bit 8 r; g8 = drop_bit 8 g; b8 = drop_bit 8 bb
          in if \<not> (r8 > 250 \<and> g8 > 250 \<and> b8 > 250)
             then (if count + 1 > 3 then False else blank_loop img ps (count + 1))
             else blank_loop img ps count)
       else blank_loop img ps count)"

definition IsNearlyBlank :: "Image option \<Rightarrow> bool" where
  "IsNearlyBlank i =
    (case i of
       None \<Rightarrow> True
     | Some img \<Rightarrow>
         (let b = Bounds img; w = Dx b; h = Dy b
          in if w \<le> 0 \<or> h \<le> 0 then True
             else (let stepX = max (w div 20) 1; stepY = max (h div 20) 1
                   in blank_loop img (samples b stepX stepY) 0)))"

text \<open>The loop of \<^verbatim>\<open>IsNearlyBlankOrBlack\<close> with its two counters.\<close>

fun black_loop :: "Image \<Rightarrow> (int \<times> int) list \<Rightarrow> nat \<times> nat \<Rightarrow> nat \<times> nat" where
  "black_loop img [] (colored, opaque) = (colored, opaque)"
| "black_loop img ((x, y) # ps) (colored, opaque) =
    (case At img x y of (r, g, bb, a) \<Rightarrow>
       if a \<ge> 0x8000 then
         (let r8 = drop_bit 8 r; g8 = drop_bit 8 g; b8 = drop_bit 8 bb;
              isBlack = (r8 < 15 \<and> g8 < 15 \<and> b8 < 15);
              isWhite = (r8 > 240 \<and> g8 > 240 \<and> b8 > 240)
          in if \<not> isBlack \<and> \<not> isWhite
             then black_loop img ps (colored + 1, opaque + 1)
             else black_loop img ps (colored, opaque + 1))
       else black_loop img ps (colored, opaque))"

definition IsNearlyBlankOrBlack :: "Image option \<Rightarrow> bool" where
  "IsNearlyBlankOrBlack i =
    (case i of
       None \<Rightarrow> True
     | Some img \<Rightarrow>
         (let b = Bounds img; w = Dx b; h = Dy b
          in if w \<le> 0 \<or> h \<le> 0 then True
             else (let stepX = max (w div 20) 1; stepY = max (h div 20) 1;
                       (colored, opaque) = black_loop img (samples b stepX stepY) (0, 0)
                   in opaque < 5 \<or> colored < 3)))"

text \<open>
  The pair \<open>(colored, opaque)\<close> that \<^verbatim>\<open>IsNearlyBlankOrBlack\<close> has counted when its
  loops end (both 0 where it returns before the loops).
\<close>

definition sample_counts :: "Image option \<Rightarrow> nat \<times> nat" where
  "sample_counts i =
    (case i of
       None \<Rightarrow> (0, 0)
     | Some img \<Rightarrow>
         (let b = Bounds img; w = Dx b; h = Dy b
          in if w \<le> 0 \<or> h \<le> 0 then (0, 0)
             else (let stepX = max (w div 20) 1; stepY = max (h div 20) 1
                   in black_loop img (samples b stepX stepY) (0, 0))))"

text \<open>The three tests the loops apply to a sample.\<close>

definition is_opaque :: "color \<Rightarrow> bool" where
  "is_opaque c = (case c of (r, g, bb, a) \<Rightarrow> a \<ge> 0x8000)"

definition not_near_white :: "color \<Rightarrow> bool" where
  "not_near_white c =
     (case c of (r, g, bb, a) \<Rightarrow>
        a \<ge> 0x8000 \<and> \<not> (drop_bit 8 r > 250 \<and> drop_bit 8 g > 250 \<and> drop_bit 8 bb > 250))"

definition is_colored :: "color \<Rightarrow> bool" where
  "is_colored c =
     (case c of (r, g, bb, a) \<Rightarrow>
        a \<ge> 0x8000 \<and>
        \<not> (drop_bit 8 r < 15 \<and> drop_bit 8 g < 15 \<and> drop_bit 8 bb < 15) \<and>
        \<not> (drop_bit 8 r > 240 \<and> drop_bit 8 g > 240 \<and> drop_bit 8 bb > 240))"

text \<open>
  \<^verbatim>\<open>image.Rect\<close> and \<^verbatim>\<open>image.NewRGBA\<close> of the Go standard library, from their
  documentation: \<^verbatim>\<open>Rect\<close> swaps the coordinates where needed so that the rectangle is
  well formed, and a new RGBA image has all channels zero, that is, it is fully
  transparent.  Allocation limits are not modelled.
\<close>

definition Rect :: "int \<Rightarrow> int \<Rightarrow> int \<Rightarrow> int \<Rightarrow> Rectangle" where
  "Rect x0 y0 x1 y1 =
     \<lparr>MinX = (if x0 > x1 then x1 else x0), MinY = (if y0 > y1 then y1 else y0),
      MaxX = (if x0 > x1 then x0 else x1), MaxY = (if y0 > y1 then y0 else y1)\<rparr>"

definition NewRGBA :: "Rectangle \<Rightarrow> Image" where
  "NewRGBA r = \<lparr>Bounds = r, At = (\<lambda>x y. (0, 0, 0, 0))\<rparr>"

text \<open>
  The scaler \<^verbatim>\<open>draw.CatmullRom\<close> belongs to \<^verbatim>\<open>golang.org/x/image\<close>.  Its
  \<^verbatim>\<open>Scale(dst, dr, src, sr, op, nil)\<close> draws into the pixels of \<^verbatim>\<open>dst\<close> and cannot
  change the bounds of \<^verbatim>\<open>dst\<close>; the model takes it as an argument that returns the
  pixels of \<^verbatim>\<open>dst\<close> after the call.
\<close>

datatype Op = Over | Src

type_synonym scaler = "Image \<Rightarrow> Rectangle \<Rightarrow> Image \<Rightarrow> Rectangle \<Rightarrow> Op \<Rightarrow> int \<Rightarrow> int \<Rightarrow> color"

definition ResizeImage :: "scaler \<Rightarrow> Image \<Rightarrow> int \<Rightarrow> Image" where
  "ResizeImage CatmullRom_Scale img size' =
    (let bounds = Bounds img
     in if Dx bounds = size' \<and> Dy bounds = size' then img
        else (let dst = NewRGBA (Rect 0 0 size' size')
              in dst\<lparr>At := CatmullRom_Scale dst (Bounds dst) img bounds Over\<rparr>))"

text \<open>Images used as concrete inputs.\<close>

definition red :: color where
  "red = (0xffff, 0, 0, 0xffff)"

definition white :: color where
  "white = (0xffff, 0xffff, 0xffff, 0xffff)"

definition three_red_two_white :: Image where
  "three_red_two_white =
     \<lparr>Bounds = \<lparr>MinX = 0, MinY = 0, MaxX = 5, MaxY = 1\<rparr>,
      At = (\<lambda>x y. if x < 3 then red else white)\<rparr>"

definition two_red_three_white :: Image where
  "two_red_three_white =
     \<lparr>Bounds = \<lparr>MinX = 0, MinY = 0, MaxX = 5, MaxY = 1\<rparr>,
      At = (\<lambda>x y. if x < 2 then red else white)\<rparr>"

definition transparent_2x2 :: Image where
  "transparent_2x2 =
     \<lparr>Bounds = \<lparr>MinX = 0, MinY = 0, MaxX = 2, MaxY = 2\<rparr>, At = (\<lambda>x y. (0, 0, 0, 0))\<rparr>"

definition red_1x1_at_5 :: Image where
  "red_1x1_at_5 = \<lparr>Bounds = \<lparr>MinX = 5, MinY = 5, MaxX = 6, MaxY = 6\<rparr>, At = (\<lambda>x y. red)\<rparr>"

section \<open>Disk cache (internal/cache/cache.go)\<close>

text \<open>
  The file system as the cache sees it: regular files by path, each with its bytes and
  its modification time.  \<^verbatim>\<open>os.Stat\<close> and \<^verbatim>\<open>os.ReadFile\<close> succeed on a path exactly
  when a file is there.  An \<^verbatim>\<open>error\<close> value is its message.
\<close>

type_synonym byte = "8 word"

type_synonym error = string

record fileobj =
  content :: "byte list"
  mtime :: int

type_synonym fs = "string \<rightharpoonup> fileobj"

definition os_Stat :: "fs \<Rightarrow> string \<Rightarrow> fileobj option" where
  "os_Stat fs p = fs p"

definition os_ReadFile :: "fs \<Rightarrow> string \<Rightarrow> byte list option" where
  "os_ReadFile fs p = map_option content (fs p)"

text \<open>
  \<^verbatim>\<open>filepath.Join\<close> and \<^verbatim>\<open>filepath.Dir\<close> for paths that are already clean (no empty,
  \<^verbatim>\<open>.\<close> or \<^verbatim>\<open>..\<close> elements), which is what the cache builds.
\<close>

definition filepath_Join :: "string \<Rightarrow> string \<Rightarrow> string" where
  "filepath_Join a b =
     (if a = [] then b else if b = [] then a
      else if last a = CHR ''/'' then a @ b else a @ ''/'' @ b)"

definition filepath_Dir :: "string \<Rightarrow> string" where
  "filepath_Dir p =
     (let d = rev (drop 1 (dropWhile (\<lambda>c. c \<noteq> CHR ''/'') (rev p)))
      in if d = [] then (if CHR ''/'' \<in> set p then ''/'' else ''.'') else d)"

text \<open>\<^verbatim>\<open>strconv.Itoa\<close>.\<close>

fun decimal :: "nat \<Rightarrow> string" where
  "decimal n = (if n < 10 then [char_of (48 + n)] else decimal (n div 10) @ [char_of (48 + n mod 10)])"

declare decimal.simps [simp del]

definition Itoa :: "int \<Rightarrow> string" where
  "Itoa i = (if i < 0 then CHR ''-'' # decimal (nat (- i)) else decimal (nat i))"

record Manager =
  CacheDir :: string
  TTL :: int

definition OrigCacheDir :: "Manager \<Rightarrow> string" where
  "OrigCacheDir m = filepath_Join (CacheDir m) ''orig''"

definition ResizedCacheDir :: "Manager \<Rightarrow> string" where
  "ResizedCacheDir m = filepath_Join (CacheDir m) ''resized''"

definition FallbackCacheDir :: "Manager \<Rightarrow> string" where
  "FallbackCacheDir m = filepath_Join (CacheDir m) ''fallback''"

text \<open>
  \<^verbatim>\<open>ReadOrigFromCache\<close>.  The first argument is \<^verbatim>\<open>hash\<close> (SHA-256 in hexadecimal).
  The file system is looked at twice, by \<^verbatim>\<open>os.Stat\<close> and later by \<^verbatim>\<open>os.ReadFile\<close>;
  the janitor may run in between, so the model takes the two states separately.
  \<open>now\<close> is the clock reading of \<^verbatim>\<open>time.Since\<close>.  The result is the pair the Go function
  returns, \<^const>\<open>None\<close> for the \<^verbatim>\<open>nil\<close> slice.
\<close>

definition ReadOrigFromCache ::
    "(string \<Rightarrow> string) \<Rightarrow> Manager \<Rightarrow> fs \<Rightarrow> int \<Rightarrow> fs \<Rightarrow> string \<Rightarrow> byte list option \<times> bool" where
  "ReadOrigFromCache hash m fs_stat now fs_read iconURL =
    (let p = filepath_Join (OrigCacheDir m) (hash (''orig|'' @ iconURL))
     in case os_Stat fs_stat p of
          None \<Rightarrow> (None, False)
        | Some info \<Rightarrow>
            if now - mtime info > TTL m then (None, False)
            else (case os_ReadFile fs_read p of
                    None \<Rightarrow> (None, False)
                  | Some b \<Rightarrow> (Some b, True)))"

definition ResizedCachePath :: "(string \<Rightarrow> string) \<Rightarrow> Manager \<Rightarrow> string \<Rightarrow> int \<Rightarrow> string \<Rightarrow> string" where
  "ResizedCachePath hash m iconURL size' format =
    (let ext = ''.'' @ format;
         key = hash (''res|'' @ iconURL @ ''|'' @ Itoa size' @ ''|'' @ format)
     in filepath_Join (ResizedCacheDir m) (key @ ext))"

text \<open>
  \<^verbatim>\<open>ReadResizedFromCacheWithMod\<close>; the third component is the modification time,
  \<^const>\<open>None\<close> for the zero \<^verbatim>\<open>time.Time{}\<close>.
\<close>

definition ReadResizedFromCacheWithMod ::
    "(string \<Rightarrow> string) \<Rightarrow> Manager \<Rightarrow> fs \<Rightarrow> int \<Rightarrow> fs \<Rightarrow> string \<Rightarrow> int \<Rightarrow> string
      \<Rightarrow> byte list option \<times> bool \<times> int option" where
  "ReadResizedFromCacheWithMod hash m fs_stat now fs_read iconURL size' format =
    (let p = ResizedCachePath hash m iconURL size' format
     in case os_Stat fs_stat p of
          None \<Rightarrow> (None, False, None)
        | Some info \<Rightarrow>
            if now - mtime info > TTL m then (None, False, None)
            else (case os_ReadFile fs_read p of
                    None \<Rightarrow> (None, False, None)
                  | Some b \<Rightarrow> (Some b, True, Some (mtime info))))"

text \<open>
  The environment of one \<^verbatim>\<open>atomicWriteFile\<close> call: the random names \<^verbatim>\<open>os.CreateTemp\<close>
  tries in turn, the clock, and for each system call that returns an \<^verbatim>\<open>error\<close> whether
  it fails and how (a failing \<^verbatim>\<open>Write\<close> may have written a part of the data).
\<close>

record os_env =
  temp_candidates :: "string list"
  clock :: int
  create_fails :: "error option"
  write_fails :: "(error \<times> nat) option"
  sync_fails :: "error option"
  close_fails :: "error option"
  rename_fails :: "error option"
  remove_fails :: bool

datatype syscall =
    CreateTemp string string
  | Write string "byte list"
  | Sync string
  | Close string
  | Rename string string
  | Remove string

text \<open>
  \<^verbatim>\<open>os.CreateTemp(dir, ".tmp-*")\<close>: the first candidate name that is free is created
  empty (the call opens with \<^verbatim>\<open>O_EXCL\<close>); the call fails when the environment says so
  or when no candidate is free.
\<close>

definition os_CreateTemp :: "os_env \<Rightarrow> string \<Rightarrow> fs \<Rightarrow> (error + string) \<times> fs" where
  "os_CreateTemp env dir fs =
    (case create_fails env of
       Some err \<Rightarrow> (Inl err, fs)
     | None \<Rightarrow>
         (case find (\<lambda>n. fs (filepath_Join dir (''.tmp-'' @ n)) = None) (temp_candidates env) of
            None \<Rightarrow> (Inl ''file exists'', fs)
          | Some n \<Rightarrow>
              (let name = filepath_Join dir (''.tmp-'' @ n)
               in (Inr name, fs(name \<mapsto> \<lparr>content = [], mtime = clock env\<rparr>)))))"

text \<open>\<^verbatim>\<open>os.Rename\<close> of an existing file over a name, and the deferred clean-up.\<close>

definition os_Rename :: "string \<Rightarrow> string \<Rightarrow> fs \<Rightarrow> fs" where
  "os_Rename old new fs = (if old = new then fs else (fs(old := None))(new := fs old))"

definition deferred_Remove :: "os_env \<Rightarrow> string \<Rightarrow> fs \<Rightarrow> fs" where
  "deferred_Remove env tmpName fs = (if remove_fails env then fs else fs(tmpName := None))"

text \<open>
  \<^verbatim>\<open>atomicWriteFile\<close>.  The result is the returned \<^verbatim>\<open>error\<close>, the file system after
  the call and the system calls made, in order.
\<close>

definition atomicWriteFile ::
    "os_env \<Rightarrow> string \<Rightarrow> byte list \<Rightarrow> fs \<Rightarrow> error option \<times> fs \<times> syscall list" where
  "atomicWriteFile env p data fs =
    (let dir = filepath_Dir p
     in case os_CreateTemp env dir fs of
          (Inl err, fs1) \<Rightarrow> (Some err, fs1, [CreateTemp dir ''.tmp-*''])
        | (Inr tmpName, fs1) \<Rightarrow>
            (let calls1 = [CreateTemp dir ''.tmp-*'', Write tmpName data]
             in case write_fails env of
                  Some (err, k) \<Rightarrow>
                    (Some err,
                     deferred_Remove env tmpName
                       (fs1(tmpName \<mapsto> \<lparr>content = take k data, mtime = clock env\<rparr>)),
                     calls1 @ [Close tmpName, Remove tmpName])
                | None \<Rightarrow>
                    (let fs2 = fs1(tmpName \<mapsto> \<lparr>content = data, mtime = clock env\<rparr>)
                     in case sync_fails env of
                          Some err \<Rightarrow>
                            (Some err, deferred_Remove env tmpName fs2,
                             calls1 @ [Sync tmpName, Close tmpName, Remove tmpName])
                        | None \<Rightarrow>
                            (case close_fails env of
                               Some err \<Rightarrow>
                                 (Some err, deferred_Remove env tmpName fs2,
                                  calls1 @ [Sync tmpName, Close tmpName, Remove tmpName])
                             | None \<Rightarrow>
                                 (case rename_fails env of
                                    Some err \<Rightarrow>
                                      (Some err, deferred_Remove env tmpName fs2,
                                       calls1 @ [Sync tmpName, Close tmpName,
                                                 Rename tmpName p, Remove tmpName])
                                  | None \<Rightarrow>
                                      (None, os_Rename tmpName p fs2,
                                       calls1 @ [Sync tmpName, Close tmpName,
                                                 Rename tmpName p]))))))"







section \<open>Client address (pkg/ratelimit/ratelimit.go)\<close>

text \<open>
  An \<^verbatim>\<open>http.Request\<close> as \<^verbatim>\<open>getClientIP\<close> reads it: \<open>HeaderGet\<close> is \<^verbatim>\<open>r.Header.Get\<close>
  (the empty string for a header that is absent) and \<open>RemoteAddr\<close> the field of that
  name.
\<close>

record Request =
  HeaderGet :: "string \<Rightarrow> string"
  RemoteAddr :: string

text \<open>
  \<^verbatim>\<open>trimSpace\<close>: \<^verbatim>\<open>start\<close> moves right over spaces and tabs, then \<^verbatim>\<open>end\<close> moves left
  over spaces and tabs, and the result is \<^verbatim>\<open>s[start:end]\<close>.
\<close>

definition space_or_tab :: "char \<Rightarrow> bool" where
  "space_or_tab c = (c = CHR '' '' \<or> c = CHR 0x09)"

definition trimSpace :: "string \<Rightarrow> string" where
  "trimSpace s = rev (dropWhile space_or_tab (rev (dropWhile space_or_tab s)))"

text \<open>
  \<^verbatim>\<open>parseIP\<close>: the string is cut at its first comma, trimmed and validated.  The first
  argument is the test \<^verbatim>\<open>net.ParseIP(s) != nil\<close>.
\<close>

definition parseIP :: "(string \<Rightarrow> bool) \<Rightarrow> string \<Rightarrow> string" where
  "parseIP ParseIP_ok s =
    (let s1 = takeWhile (\<lambda>c. c \<noteq> CHR '','') s;
         s2 = trimSpace s1
     in if ParseIP_ok s2 then s2 else [])"

text \<open>The string that \<^verbatim>\<open>parseIP\<close> validates: the text before the first comma, trimmed.\<close>

definition first_entry :: "string \<Rightarrow> string" where
  "first_entry s = trimSpace (takeWhile (\<lambda>c. c \<noteq> CHR '','') s)"

text \<open>\<^verbatim>\<open>getClientIP\<close>; the second argument is \<^verbatim>\<open>net.SplitHostPort\<close>.\<close>

definition getClientIP ::
    "(string \<Rightarrow> bool) \<Rightarrow> (string \<Rightarrow> error + string \<times> string) \<Rightarrow> Request \<Rightarrow> string" where
  "getClientIP ParseIP_ok SplitHostPort r =
    (let xff = HeaderGet r ''X-Forwarded-For''
     in if xff \<noteq> [] \<and> parseIP ParseIP_ok xff \<noteq> [] then parseIP ParseIP_ok xff
        else (let xri = HeaderGet r ''X-Real-IP''
              in if xri \<noteq> [] \<and> parseIP ParseIP_ok xri \<noteq> [] then parseIP ParseIP_ok xri
                 else (case SplitHostPort (RemoteAddr r) of
                         Inl err \<Rightarrow> RemoteAddr r
                       | Inr (ip, port) \<Rightarrow> ip)))"

text \<open>
  The extraction from \<^verbatim>\<open>X-Forwarded-For\<close> in the words of the specification: split on
  commas, trim ASCII white space from every entry, take the first entry that is valid.
\<close>

fun split_commas :: "string \<Rightarrow> string list" where
  "split_commas [] = [[]]"
| "split_commas (c # cs) =
     (if c = CHR '','' then [] # split_commas cs
      else (case split_commas cs of e # es \<Rightarrow> (c # e) # es | [] \<Rightarrow> [[c]]))"

definition ascii_space :: "char \<Rightarrow> bool" where
  "ascii_space c = (c \<in> {CHR '' '', CHR 0x09, CHR 0x0A, CHR 0x0B, CHR 0x0C, CHR 0x0D})"

definition trim_ascii_space :: "string \<Rightarrow> string" where
  "trim_ascii_space s = rev (dropWhile ascii_space (rev (dropWhile ascii_space s)))"

definition first_valid_entry :: "(string \<Rightarrow> bool) \<Rightarrow> string \<Rightarrow> string option" where
  "first_valid_entry ParseIP_ok xff = find ParseIP_ok (map trim_ascii_space (split_commas xff))"

subsection \<open>The two library functions, for concrete inputs\<close>

text \<open>
  Models of \<^verbatim>\<open>net.ParseIP\<close> and \<^verbatim>\<open>net.SplitHostPort\<close> of the Go standard library
  (\<^verbatim>\<open>net/netip\<close>'s parser, \<^verbatim>\<open>net/ipsock.go\<close>), written after the library's algorithm.
  The theorems about \<open>getClientIP\<close> hold for every validator and every splitter; these
  two are used where a statement is about concrete strings.
\<close>

definition is_digit :: "char \<Rightarrow> bool" where
  "is_digit c = (48 \<le> (of_char c :: nat) \<and> (of_char c :: nat) \<le> 57)"

definition is_hex :: "char \<Rightarrow> bool" where
  "is_hex c =
     (is_digit c \<or> (97 \<le> (of_char c :: nat) \<and> (of_char c :: nat) \<le> 102)
                 \<or> (65 \<le> (of_char c :: nat) \<and> (of_char c :: nat) \<le> 70))"

text \<open>
  \<^verbatim>\<open>parseIPv4Fields\<close>: the characters still to read, the character before them, the
  value and the number of digits of the current field and the number of dots seen.
\<close>

fun ipv4_fields :: "string \<Rightarrow> char option \<Rightarrow> nat \<Rightarrow> nat \<Rightarrow> nat \<Rightarrow> bool" where
  "ipv4_fields [] prev val digLen pos = (pos = 3)"
| "ipv4_fields (c # cs) prev val digLen pos =
    (if is_digit c then
       (if digLen = 1 \<and> val = 0 then False
        else (let val' = val * 10 + (of_char c - 48)
              in if val' > 255 then False else ipv4_fields cs (Some c) val' (digLen + 1) pos))
     else if c = CHR ''.'' then
       (if prev = None \<or> cs = [] \<or> prev = Some CHR ''.'' then False
        else if pos = 3 then False
        else ipv4_fields cs (Some c) 0 0 (pos + 1))
     else False)"

definition parseIPv4_ok :: "string \<Rightarrow> bool" where
  "parseIPv4_ok s = ipv4_fields s None 0 0 0"

text \<open>
  The loop of \<^verbatim>\<open>parseIPv6\<close> after the zone and a leading \<^verbatim>\<open>::\<close> have been dealt with.
  The first argument counts the iterations that remain until \<^verbatim>\<open>i\<close> reaches 16; \<^verbatim>\<open>i\<close>
  is the number of address bytes filled and \<open>ellipsis\<close> says whether a \<^verbatim>\<open>::\<close> was seen.
\<close>

fun ipv6_loop :: "nat \<Rightarrow> nat \<Rightarrow> bool \<Rightarrow> string \<Rightarrow> bool" where
  "ipv6_loop 0 i ellipsis s = (s = [] \<and> \<not> ellipsis)"
| "ipv6_loop (Suc k) i ellipsis s =
    (let digits = takeWhile is_hex s; rest = dropWhile is_hex s
     in if length digits > 4 then False
        else if digits = [] then False
        else if rest \<noteq> [] \<and> hd rest = CHR ''.'' then
          (if \<not> ellipsis \<and> i \<noteq> 12 then False
           else if i + 4 > 16 then False
           else if \<not> parseIPv4_ok s then False
           else (if i + 4 < 16 then ellipsis else \<not> ellipsis))
        else if rest = [] then (if i + 2 < 16 then ellipsis else \<not> ellipsis)
        else if hd rest \<noteq> CHR '':'' then False
        else if length rest = 1 then False
        else (let s1 = tl rest
              in if hd s1 = CHR '':'' then
                   (if ellipsis then False
                    else if tl s1 = [] then (i + 2 < 16)
                    else ipv6_loop k (i + 2) True (tl s1))
                 else ipv6_loop k (i + 2) ellipsis s1))"

definition parseIPv6_ok :: "string \<Rightarrow> bool" where
  "parseIPv6_ok s =
    (if CHR ''%'' \<in> set s then False
     else if length s \<ge> 2 \<and> s ! 0 = CHR '':'' \<and> s ! 1 = CHR '':'' then
       (if drop 2 s = [] then True else ipv6_loop 8 0 True (drop 2 s))
     else ipv6_loop 8 0 False s)"

text \<open>
  \<^verbatim>\<open>net.ParseIP(s) != nil\<close>: the first dot, colon or percent sign of the string decides
  the parser; an address with a zone is not accepted.
\<close>

definition net_ParseIP_ok :: "string \<Rightarrow> bool" where
  "net_ParseIP_ok s =
    (case dropWhile (\<lambda>c. c \<noteq> CHR ''.'' \<and> c \<noteq> CHR '':'' \<and> c \<noteq> CHR ''%'') s of
       [] \<Rightarrow> False
     | c # cs \<Rightarrow> if c = CHR ''.'' then parseIPv4_ok s
                 else if c = CHR '':'' then parseIPv6_ok s
                 else False)"

definition index_of :: "char \<Rightarrow> string \<Rightarrow> nat option" where
  "index_of c s = (if c \<in> set s then Some (length (takeWhile (\<lambda>d. d \<noteq> c) s)) else None)"

definition last_index_of :: "char \<Rightarrow> string \<Rightarrow> nat option" where
  "last_index_of c s =
     (if c \<in> set s then Some (length s - 1 - length (takeWhile (\<lambda>d. d \<noteq> c) (rev s))) else None)"

definition net_SplitHostPort :: "string \<Rightarrow> error + string \<times> string" where
  "net_SplitHostPort hostport =
    (case last_index_of CHR '':'' hostport of
       None \<Rightarrow> Inl ''missing port in address''
     | Some i \<Rightarrow>
         (if hd hostport = CHR ''['' then
            (case index_of CHR '']'' hostport of
               None \<Rightarrow> Inl ''missing ] in address''
             | Some end \<Rightarrow>
                 (if end + 1 = length hostport then Inl ''missing port in address''
                  else if end + 1 \<noteq> i then
                    (if hostport ! (end + 1) = CHR '':'' then Inl ''too many colons in address''
                     else Inl ''missing port in address'')
                  else if CHR ''['' \<in> set (drop 1 hostport) then Inl ''unexpected [ in address''
                  else if CHR '']'' \<in> set (drop (end + 1) hostport)
                    then Inl ''unexpected ] in address''
                  else Inr (take (end - 1) (drop 1 hostport), drop (i + 1) hostport)))
          else
            (let host = take i hostport
             in if CHR '':'' \<in> set host then Inl ''too many colons in address''
                else if CHR ''['' \<in> set hostport then Inl ''unexpected [ in address''
                else if CHR '']'' \<in> set hostport then Inl ''unexpected ] in address''
                else Inr (host, drop (i + 1) hostport))))"

text \<open>Requests used as concrete inputs.\<close>

definition req_first_entry_unknown :: Request where
  "req_first_entry_unknown =
     \<lparr>HeaderGet = (\<lambda>k. if k = ''X-Forwarded-For'' then ''unknown, 203.0.113.7'' else []),
      RemoteAddr = ''10.0.0.1:5555''\<rparr>"

definition req_link_local :: Request where
  "req_link_local = \<lparr>HeaderGet = (\<lambda>k. []), RemoteAddr = ''[fe80::1%eth0]:51234''\<rparr>"

definition req_forwarded :: Request where
  "req_forwarded =
     \<lparr>HeaderGet = (\<lambda>k. if k = ''X-Forwarded-For'' then '' 203.0.113.7 , 10.1.1.1'' else []),
      RemoteAddr = ''10.0.0.1:5555''\<rparr>"

section \<open>Janitor (the file of src/unnamed/part\_003 that declares \<^verbatim>\<open>RunJanitor\<close>)\<close>

text \<open>
  The janitor works on the file system of the cache, \<^typ>\<open>fs\<close>, through these calls.
  \<^verbatim>\<open>filepath.WalkDir(root, ...)\<close> visits the regular files under the root in lexical
  order: \<open>order\<close> lists the paths under the root in that order, and the walk meets
  those that exist.  \<^verbatim>\<open>os.Remove\<close> fails on a path that does not exist and succeeds
  otherwise.  The janitor is alone on the file system while it runs (no other writer,
  no input or output error).  Times and durations are in nanoseconds.
\<close>

definition WalkDir :: "string list \<Rightarrow> fs \<Rightarrow> (string \<times> fileobj) list" where
  "WalkDir order fs = map (\<lambda>p. (p, the (fs p))) (filter (\<lambda>p. fs p \<noteq> None) order)"

definition os_Remove :: "string \<Rightarrow> fs \<Rightarrow> fs option" where
  "os_Remove p fs = (if fs p = None then None else Some (fs(p := None)))"

text \<open>\<^verbatim>\<open>_ = os.Remove(p)\<close>: the file system afterwards, whether or not the call failed.\<close>

definition os_Remove_ignore :: "string \<Rightarrow> fs \<Rightarrow> fs" where
  "os_Remove_ignore p fs = (case os_Remove p fs of None \<Rightarrow> fs | Some fs' \<Rightarrow> fs')"

definition Size :: "fileobj \<Rightarrow> int" where
  "Size f = int (length (content f))"

text \<open>\<^verbatim>\<open>filepath.Base\<close> of the path of a walked file (not empty, no trailing slash).\<close>

definition filepath_Base :: "string \<Rightarrow> string" where
  "filepath_Base p = rev (takeWhile (\<lambda>c. c \<noteq> CHR ''/'') (rev p))"

definition TrimSuffix :: "string \<Rightarrow> string \<Rightarrow> string" where
  "TrimSuffix s suf = (if suffix suf s then take (length s - length suf) s else s)"

definition isCacheFile :: "string \<Rightarrow> bool" where
  "isCacheFile p =
     (sublist ''/orig/'' p \<or> sublist ''/resized/'' p \<or> sublist ''/fallback/'' p)"

text \<open>
  The callback of the first walk of \<^verbatim>\<open>purgeOnce\<close>, on the triple
  \<^verbatim>\<open>(dataFiles, tempFiles, metaFiles)\<close>.  The Go map \<^verbatim>\<open>metaFiles\<close> is an association
  list: assignment is \<^const>\<open>AList.update\<close>, \<^verbatim>\<open>delete\<close> is \<^const>\<open>AList.delete\<close>, and
  \<^verbatim>\<open>range\<close> runs through the list (Go leaves the order of a map's \<^verbatim>\<open>range\<close> open).
\<close>

definition collect_step ::
    "string list \<times> string list \<times> (string \<times> string) list \<Rightarrow> string
      \<Rightarrow> string list \<times> string list \<times> (string \<times> string) list" where
  "collect_step acc p =
    (case acc of (dataFiles, tempFiles, metaFiles) \<Rightarrow>
       if \<not> isCacheFile p then acc
       else (let base = filepath_Base p
             in if prefix ''.tmp-'' base then (dataFiles, tempFiles @ [p], metaFiles)
                else if suffix ''.meta'' p
                  then (dataFiles, tempFiles,
                        AList.update (TrimSuffix p ''.meta'') p metaFiles)
                  else (dataFiles @ [p], tempFiles, metaFiles)))"

text \<open>The loop ``purge expired data files and their meta files''.\<close>

fun purge_expired ::
    "int \<Rightarrow> string list \<Rightarrow> fs \<times> (string \<times> string) list \<Rightarrow> fs \<times> (string \<times> string) list" where
  "purge_expired expireBefore [] st = st"
| "purge_expired expireBefore (p # ps) (fs, metaFiles) =
    (case os_Stat fs p of
       None \<Rightarrow> purge_expired expireBefore ps (fs, metaFiles)
     | Some info \<Rightarrow>
         if mtime info < expireBefore then
           (case os_Remove p fs of
              None \<Rightarrow> purge_expired expireBefore ps (fs, metaFiles)
            | Some fs1 \<Rightarrow>
                (case map_of metaFiles p of
                   Some metaPath \<Rightarrow>
                     purge_expired expireBefore ps
                       (os_Remove_ignore metaPath fs1, AList.delete p metaFiles)
                 | None \<Rightarrow> purge_expired expireBefore ps (fs1, metaFiles)))
         else purge_expired expireBefore ps (fs, metaFiles))"

text \<open>The loop ``purge orphan meta files''.\<close>

fun purge_orphans :: "string list \<Rightarrow> (string \<times> string) list \<Rightarrow> fs \<Rightarrow> fs" where
  "purge_orphans dataFiles [] fs = fs"
| "purge_orphans dataFiles ((base, metaPath) # ms) fs =
    (if base \<notin> set dataFiles
     then purge_orphans dataFiles ms (os_Remove_ignore metaPath fs)
     else purge_orphans dataFiles ms fs)"

text \<open>The loop ``purge leftover temp files''.\<close>

fun purge_temps :: "int \<Rightarrow> string list \<Rightarrow> fs \<Rightarrow> fs" where
  "purge_temps tempExpire [] fs = fs"
| "purge_temps tempExpire (p # ps) fs =
    (case os_Stat fs p of
       None \<Rightarrow> purge_temps tempExpire ps fs
     | Some info \<Rightarrow>
         if mtime info < tempExpire
         then purge_temps tempExpire ps (os_Remove_ignore p fs)
         else purge_temps tempExpire ps fs)"

record fileEntry =
  path :: string
  size' :: int
  mtime' :: int

text \<open>The callback of the walk of \<^verbatim>\<open>purgeBySizeLimit\<close>, on \<^verbatim>\<open>(files, total)\<close>.\<close>

definition size_step :: "fileEntry list \<times> int \<Rightarrow> string \<times> fileobj \<Rightarrow> fileEntry list \<times> int" where
  "size_step acc e =
    (case acc of (files, total') \<Rightarrow>
       case e of (p, info) \<Rightarrow>
         if \<not> isCacheFile p then acc
         else if suffix ''.meta'' p \<or> prefix ''.tmp-'' (filepath_Base p) then acc
         else (files @ [\<lparr>path = p, size' = Size info, mtime' = mtime info\<rparr>],
               total' + Size info))"

text \<open>
  The eviction loop of \<^verbatim>\<open>purgeBySizeLimit\<close> over the sorted files, with the running
  \<^verbatim>\<open>total\<close>.
\<close>

fun evict :: "int \<Rightarrow> fileEntry list \<Rightarrow> int \<Rightarrow> fs \<Rightarrow> fs" where
  "evict maxSize [] total' fs = fs"
| "evict maxSize (fe # fes) total' fs =
    (if total' \<le> maxSize then fs
     else (case os_Remove (path fe) fs of
             None \<Rightarrow> evict maxSize fes total' fs
           | Some fs1 \<Rightarrow>
               (let metaPath = path fe @ ''.meta''
                in case os_Stat fs1 metaPath of
                     Some info \<Rightarrow>
                       evict maxSize fes (total' - size' fe) (os_Remove_ignore metaPath fs1)
                   | None \<Rightarrow> evict maxSize fes (total' - size' fe) fs1)))"

text \<open>
  \<^verbatim>\<open>purgeBySizeLimit\<close>.  \<^verbatim>\<open>sort.Slice\<close> orders by \<^verbatim>\<open>mtime\<close>; it leaves the order of
  files with equal times open, the model keeps them in walk order.
\<close>

definition purgeBySizeLimit :: "string list \<Rightarrow> int \<Rightarrow> fs \<Rightarrow> fs" where
  "purgeBySizeLimit order maxSize fs =
    (case foldl size_step ([], 0) (WalkDir order fs) of (files, total') \<Rightarrow>
       if total' \<le> maxSize \<or> files = [] then fs
       else evict maxSize (sort_key mtime' files) total' fs)"

text \<open>
  \<^verbatim>\<open>purgeOnce\<close>.  \<open>now1\<close> and \<open>now2\<close> are the two readings of \<^verbatim>\<open>time.Now()\<close>, for
  \<^verbatim>\<open>expireBefore\<close> and for \<^verbatim>\<open>tempExpire\<close>.  The counters serve the log only and are
  left out.
\<close>

definition purgeOnce :: "string list \<Rightarrow> int \<Rightarrow> int \<Rightarrow> int \<Rightarrow> int \<Rightarrow> fs \<Rightarrow> fs" where
  "purgeOnce order now1 now2 ttl maxSize fs =
    (let expireBefore = now1 - ttl
     in case foldl collect_step ([], [], []) (map fst (WalkDir order fs)) of
          (dataFiles, tempFiles, metaFiles) \<Rightarrow>
            (case purge_expired expireBefore dataFiles (fs, metaFiles) of
               (fs1, metaFiles1) \<Rightarrow>
                 (let fs2 = purge_orphans dataFiles metaFiles1 fs1;
                      tempExpire = now2 - 5 * 60 * 1000000000;
                      fs3 = purge_temps tempExpire tempFiles fs2
                  in if maxSize > 0 then purgeBySizeLimit order maxSize fs3 else fs3)))"

section \<open>Janitor, second file (src/unnamed/part\_002)\<close>

text \<open>
  The repository holds a second file that declares \<^verbatim>\<open>RunJanitor\<close>, \<^verbatim>\<open>purgeOnce\<close>,
  \<^verbatim>\<open>purgeBySizeLimit\<close> and \<^verbatim>\<open>isCacheFile\<close> in a package \<^verbatim>\<open>cache\<close>.  Its \<^verbatim>\<open>isCacheFile\<close>
  is the same function; its other two functions are these.
\<close>

text \<open>The callback of the walk of its \<^verbatim>\<open>purgeOnce\<close>, on the file system.\<close>

definition expire_step :: "int \<Rightarrow> fs \<Rightarrow> string \<times> fileobj \<Rightarrow> fs" where
  "expire_step expireBefore fs e =
    (case e of (p, info) \<Rightarrow>
       if \<not> isCacheFile p then fs
       else if mtime info < expireBefore then os_Remove_ignore p fs
       else fs)"

definition size_step_part002 ::
    "fileEntry list \<times> int \<Rightarrow> string \<times> fileobj \<Rightarrow> fileEntry list \<times> int" where
  "size_step_part002 acc e =
    (case acc of (files, total') \<Rightarrow>
       case e of (p, info) \<Rightarrow>
         if \<not> isCacheFile p then acc
         else (files @ [\<lparr>path = p, size' = Size info, mtime' = mtime info\<rparr>],
               total' + Size info))"

fun evict_part002 :: "int \<Rightarrow> fileEntry list \<Rightarrow> int \<Rightarrow> fs \<Rightarrow> fs" where
  "evict_part002 maxSize [] total' fs = fs"
| "evict_part002 maxSize (fe # fes) total' fs =
    (if total' \<le> maxSize then fs
     else (case os_Remove (path fe) fs of
             None \<Rightarrow> evict_part002 maxSize fes total' fs
           | Some fs1 \<Rightarrow> evict_part002 maxSize fes (total' - size' fe) fs1))"

definition purgeBySizeLimit_part002 :: "string list \<Rightarrow> int \<Rightarrow> fs \<Rightarrow> fs" where
  "purgeBySizeLimit_part002 order maxSize fs =
    (case foldl size_step_part002 ([], 0) (WalkDir order fs) of (files, total') \<Rightarrow>
       if total' > maxSize \<and> files \<noteq> []
       then evict_part002 maxSize (sort_key mtime' files) total' fs
       else fs)"

definition purgeOnce_part002 :: "string list \<Rightarrow> int \<Rightarrow> int \<Rightarrow> int \<Rightarrow> fs \<Rightarrow> fs" where
  "purgeOnce_part002 order now ttl maxSize fs =
    (let expireBefore = now - ttl;
         fs1 = foldl (expire_step expireBefore) fs (WalkDir order fs)
     in if maxSize > 0 then purgeBySizeLimit_part002 order maxSize fs1 else fs1)"

text \<open>The three kinds of cache file, as both walks of the first file tell them apart.\<close>

definition is_temp :: "string \<Rightarrow> bool" where
  "is_temp p = (isCacheFile p \<and> prefix ''.tmp-'' (filepath_Base p))"

definition is_meta :: "string \<Rightarrow> bool" where
  "is_meta p = (isCacheFile p \<and> \<not> prefix ''.tmp-'' (filepath_Base p) \<and> suffix ''.meta'' p)"

definition is_payload :: "string \<Rightarrow> bool" where
  "is_payload p = (isCacheFile p \<and> \<not> prefix ''.tmp-'' (filepath_Base p) \<and> \<not> suffix ''.meta'' p)"

text \<open>The bytes of the payload files under the root.\<close>

definition payload_total :: "string list \<Rightarrow> fs \<Rightarrow> int" where
  "payload_total order fs =
     sum_list (map (\<lambda>(p, f). Size f) (filter (\<lambda>(p, f). is_payload p) (WalkDir order fs)))"

text \<open>
  A cache root used as concrete input (minutes are written out in nanoseconds); no two
  of its files have the same modification time.
\<close>

definition minute :: int where
  "minute = 60 * 1000000000"

definition sample_order :: "string list" where
  "sample_order =
     [''c/orig/.tmp-9'', ''c/orig/a'', ''c/orig/a.meta'', ''c/orig/b'', ''c/orig/b.meta'',
      ''c/orig/gone.meta'', ''c/resized/r.png'']"

definition sample_root :: fs where
  "sample_root =
     [''c/orig/.tmp-9'' \<mapsto> \<lparr>content = [1], mtime = 80 * minute\<rparr>,
      ''c/orig/a'' \<mapsto> \<lparr>content = [1, 2, 3], mtime = 70 * minute\<rparr>,
      ''c/orig/a.meta'' \<mapsto> \<lparr>content = [1, 2], mtime = 71 * minute\<rparr>,
      ''c/orig/b'' \<mapsto> \<lparr>content = [1, 2, 3], mtime = 90 * minute\<rparr>,
      ''c/orig/b.meta'' \<mapsto> \<lparr>content = [1, 2], mtime = 91 * minute\<rparr>,
      ''c/orig/gone.meta'' \<mapsto> \<lparr>content = [1, 2], mtime = 95 * minute\<rparr>,
      ''c/resized/r.png'' \<mapsto> \<lparr>content = [1, 2, 3, 4], mtime = 10 * minute\<rparr>]"

text \<open>The paths of a list whose file is there and older than a bound.\<close>

definition older_than :: "int \<Rightarrow> string list \<Rightarrow> fs \<Rightarrow> string set" where
  "older_than bound ps fs = {p \<in> set ps. \<exists>f. fs p = Some f \<and> mtime f < bound}"

text \<open>
  What the walk of \<^verbatim>\<open>purgeBySizeLimit\<close> collects: the entries of the payload files,
  in walk order.
\<close>

definition entry_of :: "string \<times> fileobj \<Rightarrow> fileEntry" where
  "entry_of e = (case e of (p, info) \<Rightarrow> \<lparr>path = p, size' = Size info, mtime' = mtime info\<rparr>)"

definition payload_entries :: "string list \<Rightarrow> fs \<Rightarrow> fileEntry list" where
  "payload_entries order fs = map entry_of (filter (\<lambda>(p, f). is_payload p) (WalkDir order fs))"

text \<open>
  The number of files the eviction loop takes from the front of the sorted list: it
  goes on while the running total is above the limit.
\<close>

fun evict_count :: "int \<Rightarrow> fileEntry list \<Rightarrow> int \<Rightarrow> nat" where
  "evict_count maxSize [] total' = 0"
| "evict_count maxSize (fe # fes) total' =
     (if total' \<le> maxSize then 0 else Suc (evict_count maxSize fes (total' - size' fe)))"

text \<open>The paths that go when the files \<open>fes\<close> are evicted: theirs and their sidecars'.\<close>

definition evicted_paths :: "fileEntry list \<Rightarrow> string set" where
  "evicted_paths fes = path ` set fes \<union> (\<lambda>fe. path fe @ ''.meta'') ` set fes"

text \<open>\<^verbatim>\<open>purgeOnce\<close> up to its last statement, the eviction by size.\<close>

definition before_eviction :: "string list \<Rightarrow> int \<Rightarrow> int \<Rightarrow> int \<Rightarrow> fs \<Rightarrow> fs" where
  "before_eviction order now1 now2 ttl fs =
    (let expireBefore = now1 - ttl
     in case foldl collect_step ([], [], []) (map fst (WalkDir order fs)) of
          (dataFiles, tempFiles, metaFiles) \<Rightarrow>
            (case purge_expired expireBefore dataFiles (fs, metaFiles) of
               (fs1, metaFiles1) \<Rightarrow>
                 (let fs2 = purge_orphans dataFiles metaFiles1 fs1;
                      tempExpire = now2 - 5 * 60 * 1000000000
                  in purge_temps tempExpire tempFiles fs2)))"

chapter \<open>Properties\<close>

section \<open>Token bucket\<close>

lemma allow_eq_spec: "allow now b = allow_spec now b"
  by (simp add: allow_def allow_spec_def refilled_def Let_def min_def)

lemma allow_fst: "fst (allow now b) = (1 \<le> refilled now b)"
  by (simp add: allow_eq_spec allow_spec_def)


lemma allow_frame:
  "rate (snd (allow now b)) = rate b"
  "capacity (snd (allow now b)) = capacity b"
  "lastUpdate (snd (allow now b)) = now"
  by (simp_all add: allow_eq_spec allow_spec_def)

lemma refilled_le_capacity: "refilled now b \<le> capacity b"
  by (simp add: refilled_def)









section \<open>Limiter with a burst below one\<close>

lemma low_capacity_rejects: "capacity b < 1 \<Longrightarrow> \<not> fst (allow now b)"
  using refilled_le_capacity[of now b] by (simp add: allow_fst)

lemma low_capacity_results: "capacity b < 1 \<Longrightarrow> True \<notin> set (allow_results ts b)"
  by (induction ts arbitrary: b) (simp_all add: low_capacity_rejects allow_frame)

lemma global_rejects:
  "globalBucket l = Some g \<Longrightarrow> capacity g < 1 \<Longrightarrow> True \<notin> set (limiter_run es l)"
proof (induction es l arbitrary: g rule: limiter_run.induct)
  case (1 l)
  then show ?case by simp
next
  case (2 ip tg tc ti es l)
  have r: "fst (Limiter_Allow tg tc ti ip l) = False"
    using 2 by (simp add: Limiter_Allow_def low_capacity_rejects)
  have g': "globalBucket (snd (Limiter_Allow tg tc ti ip l)) = Some (snd (allow tg g))"
    using 2 by (simp add: Limiter_Allow_def low_capacity_rejects)
  show ?case using 2(1)[OF g'] 2(3) r by (simp add: allow_frame)
next
  case (3 t es l)
  then show ?case by (simp add: cleanup_def Let_def)
qed

lemma ip_rejecting_Allow:
  assumes "0 < ipRate l" "ipBurst l < 1"
    and "\<forall>ip b. ipBuckets l ip = Some b \<longrightarrow> capacity b < 1"
  shows "fst (Limiter_Allow tg tc ti ip l) = False"
    and "ipRate (snd (Limiter_Allow tg tc ti ip l)) = ipRate l"
    and "ipBurst (snd (Limiter_Allow tg tc ti ip l)) = ipBurst l"
    and "\<forall>ip' b. ipBuckets (snd (Limiter_Allow tg tc ti ip l)) ip' = Some b \<longrightarrow> capacity b < 1"
  using assms
  by (auto simp: Limiter_Allow_def getOrCreateIPBucket_def Let_def
      low_capacity_rejects allow_frame newTokenBucket_def split: option.splits if_splits)

lemma ip_rejecting_cleanup:
  assumes "\<forall>ip b. ipBuckets l ip = Some b \<longrightarrow> capacity b < 1"
  shows "\<forall>ip b. ipBuckets (cleanup t l) ip = Some b \<longrightarrow> capacity b < 1"
  using assms by (auto simp: cleanup_def Let_def split: option.splits if_splits)

lemma ip_rejects:
  "0 < ipRate l \<Longrightarrow> ipBurst l < 1
   \<Longrightarrow> \<forall>ip b. ipBuckets l ip = Some b \<longrightarrow> capacity b < 1
   \<Longrightarrow> True \<notin> set (limiter_run es l)"
proof (induction es l rule: limiter_run.induct)
  case (1 l)
  then show ?case by simp
next
  case (2 ip tg tc ti es l)
  note A = ip_rejecting_Allow[OF 2(2,3,4), of tg tc ti ip]
  have "True \<notin> set (limiter_run es (snd (Limiter_Allow tg tc ti ip l)))"
  proof (rule 2(1))
    show "0 < ipRate (snd (Limiter_Allow tg tc ti ip l))" using A(2) 2(2) by simp
    show "ipBurst (snd (Limiter_Allow tg tc ti ip l)) < 1" using A(3) 2(3) by simp
    show "\<forall>ip' b. ipBuckets (snd (Limiter_Allow tg tc ti ip l)) ip' = Some b
            \<longrightarrow> capacity b < 1"
      by (rule A(4))
  qed
  then show ?case using A(1) by simp
next
  case (3 t es l)
  have "\<forall>ip b. ipBuckets (cleanup t l) ip = Some b \<longrightarrow> capacity b < 1"
    using 3(4) by (rule ip_rejecting_cleanup)
  moreover have "ipRate (cleanup t l) = ipRate l" "ipBurst (cleanup t l) = ipBurst l"
    by (simp_all add: cleanup_def Let_def)
  ultimately show ?case using 3 by simp
qed

lemma int64_wrap_id: "- (2 ^ 63) \<le> x \<Longrightarrow> x < 2 ^ 63 \<Longrightarrow> int64_wrap x = x"
  by (simp add: int64_wrap_def signed_of_int signed_take_bit_int_eq_self)

text \<open>
  \<^bold>\<open>Claim C10.\<close>  A bucket constructed with a capacity below 1 answers false to every
  \<^verbatim>\<open>allow()\<close> call, whatever the rate and the clock readings.  \<^verbatim>\<open>NewLimiter\<close> does not
  default the burst: with a positive global rate and global burst 0, or with a positive
  per-IP rate and per-IP burst 0, it returns a limiter that rejects every request of
  every run (cleanup passes included).  The default of twice the rate is applied by
  \<^verbatim>\<open>main\<close>: started through \<^verbatim>\<open>main\<close> with burst 0, the limiter is the one
  \<^verbatim>\<open>NewLimiter\<close> builds for burst \<open>2 \<times> rate\<close>, and its first request passes.
\<close>

theorem burst_below_one_rejects_all:
  "(c < 1 \<longrightarrow> True \<notin> set (allow_results ts (newTokenBucket start r c))) \<and>
   (0 < gr \<longrightarrow>
      (\<exists>l. NewLimiter start gr 0 ir ib = Some l \<and> True \<notin> set (limiter_run es l))) \<and>
   (0 < ir \<longrightarrow>
      (\<exists>l. NewLimiter start gr gb ir 0 = Some l \<and> True \<notin> set (limiter_run es l))) \<and>
   (0 < gr \<and> gr < 2 ^ 62 \<and> start \<le> tg \<longrightarrow>
      main_rateLimiter start gr 0 0 0 = NewLimiter start gr (2 * gr) 0 0 \<and>
      (\<exists>l. main_rateLimiter start gr 0 0 0 = Some l \<and> fst (Limiter_Allow tg tc ti ip l)))"
proof (intro conjI impI)
  assume "c < 1"
  then show "True \<notin> set (allow_results ts (newTokenBucket start r c))"
    by (intro low_capacity_results) (simp add: newTokenBucket_def)
next
  assume gr: "0 < gr"
  let ?l = "\<lparr>globalBucket = Some (newTokenBucket start (of_int gr) 0),
             ipBuckets = Map.empty, ipRate = ir, ipBurst = ib\<rparr>"
  have "NewLimiter start gr 0 ir ib = Some ?l" using gr by (simp add: NewLimiter_def)
  moreover have "True \<notin> set (limiter_run es ?l)"
    by (rule global_rejects[where g = "newTokenBucket start (of_int gr) 0"])
       (simp_all add: newTokenBucket_def)
  ultimately show "\<exists>l. NewLimiter start gr 0 ir ib = Some l \<and> True \<notin> set (limiter_run es l)"
    by blast
next
  assume ir: "0 < ir"
  obtain l where l: "NewLimiter start gr gb ir 0 = Some l"
    and f: "ipRate l = ir" "ipBurst l = 0" "ipBuckets l = Map.empty"
    using ir by (simp add: NewLimiter_def)
  have "True \<notin> set (limiter_run es l)"
    by (rule ip_rejects) (simp_all add: f ir)
  with l show "\<exists>l. NewLimiter start gr gb ir 0 = Some l \<and> True \<notin> set (limiter_run es l)"
    by blast
next
  assume a: "0 < gr \<and> gr < 2 ^ 62 \<and> start \<le> tg"
  then have w: "int64_wrap (gr * 2) = 2 * gr"
    by (intro int64_wrap_id [THEN trans]) simp_all
  then show "main_rateLimiter start gr 0 0 0 = NewLimiter start gr (2 * gr) 0 0"
    using a by (simp add: main_rateLimiter_def)
  let ?b = "newTokenBucket start (of_int gr) (of_int (2 * gr))"
  let ?l = "\<lparr>globalBucket = Some ?b, ipBuckets = Map.empty, ipRate = 0, ipBurst = 0\<rparr>"
  have m: "main_rateLimiter start gr 0 0 0 = Some ?l"
    using a w by (simp add: main_rateLimiter_def NewLimiter_def)
  have "0 \<le> (tg - start) * real_of_int gr" using a by simp
  moreover have "(2::real) \<le> 2 * real_of_int gr" using a by simp
  ultimately have "1 \<le> refilled tg ?b"
    by (simp add: refilled_def newTokenBucket_def)
  then have "fst (Limiter_Allow tg tc ti ip ?l)"
    by (simp add: Limiter_Allow_def allow_fst)
  with m show "\<exists>l. main_rateLimiter start gr 0 0 0 = Some l \<and> fst (Limiter_Allow tg tc ti ip l)"
    by blast
qed

theorem burst_below_one_rejects_all_witness:
  "(1/2::real) < 1 \<and>
   True \<notin> set (allow_results [1, 100] (newTokenBucket 0 5 (1/2))) \<and>
   (0::int) < 5 \<and>
   (\<exists>l. NewLimiter 0 5 0 0 0 = Some l \<and>
        True \<notin> set (limiter_run [Request ''10.0.0.1'' 1 1 1, Cleanup 2,
                                  Request ''10.0.0.1'' 1000 1000 1000] l)) \<and>
   (\<exists>l. NewLimiter 0 0 0 5 0 = Some l \<and>
        True \<notin> set (limiter_run [Request ''10.0.0.1'' 1 1 1, Cleanup 2,
                                  Request ''10.0.0.1'' 1000 1000 1000] l)) \<and>
   (5::int) < 2 ^ 62 \<and> (0::real) \<le> 1 \<and>
   main_rateLimiter 0 5 0 0 0 = NewLimiter 0 5 (2 * 5) 0 0 \<and>
   (\<exists>l. main_rateLimiter 0 5 0 0 0 = Some l \<and> fst (Limiter_Allow 1 1 1 ''10.0.0.1'' l))"
proof -
  have h: "(1/2::real) < 1" "(0::int) < 5" "(5::int) < 2 ^ 62" "(0::real) \<le> 1"
    by simp_all
  note A = burst_below_one_rejects_all
    [where c = "1/2" and ts = "[1, 100]" and start = 0 and r = 5 and gr = 5 and ir = 0
       and ib = 0 and gb = 0 and tg = 1 and tc = 1 and ti = 1 and ip = "''10.0.0.1''"
       and es = "[Request ''10.0.0.1'' 1 1 1, Cleanup 2, Request ''10.0.0.1'' 1000 1000 1000]"]
  note B = burst_below_one_rejects_all
    [where gr = 0 and gb = 0 and ir = 5 and start = 0
       and es = "[Request ''10.0.0.1'' 1 1 1, Cleanup 2, Request ''10.0.0.1'' 1000 1000 1000]"]
  show ?thesis using h A B by blast
qed

section \<open>Blank and black heuristics\<close>

lemma blank_loop_count:
  "count \<le> 3 \<Longrightarrow>
   blank_loop img ps count =
     (count + length (filter (\<lambda>(x, y). not_near_white (At img x y)) ps) \<le> 3)"
proof (induction ps arbitrary: count)
  case Nil
  then show ?case by simp
next
  case (Cons p ps)
  obtain x y where p: "p = (x, y)" by (cases p)
  obtain r g bb a where c: "At img x y = (r, g, bb, a)" by (cases "At img x y")
  show ?case
  proof (cases "not_near_white (At img x y)")
    case True
    show ?thesis
    proof (cases "count = 3")
      case True
      with \<open>not_near_white (At img x y)\<close> show ?thesis
        using c by (simp add: p not_near_white_def Let_def)
    next
      case False
      then have "count + 1 \<le> 3" using Cons.prems by simp
      from Cons.IH[OF this] \<open>not_near_white (At img x y)\<close> False Cons.prems show ?thesis
        using c by (simp add: p not_near_white_def Let_def)
    qed
  next
    case False
    with Cons.IH[OF Cons.prems] show ?thesis
      using c by (auto simp: p not_near_white_def Let_def)
  qed
qed

lemma black_loop_count:
  "black_loop img ps (colored, opaque) =
     (colored + length (filter (\<lambda>(x, y). is_colored (At img x y)) ps),
      opaque + length (filter (\<lambda>(x, y). is_opaque (At img x y)) ps))"
proof (induction ps arbitrary: colored opaque)
  case Nil
  then show ?case by simp
next
  case (Cons p ps)
  obtain x y where p: "p = (x, y)" by (cases p)
  obtain r g bb a where c: "At img x y = (r, g, bb, a)" by (cases "At img x y")
  show ?case
    using c by (simp add: p Cons.IH is_colored_def is_opaque_def Let_def)
qed

lemma colored_not_near_white: "is_colored c \<Longrightarrow> not_near_white c"
proof -
  have w: "(240::32 word) < x" if "250 < x" for x
  proof -
    have "(240::32 word) < 250" by simp
    then show ?thesis using that by (rule less_trans)
  qed
  assume "is_colored c"
  then show ?thesis
    by (auto simp: is_colored_def not_near_white_def dest: w split: prod.splits)
qed

lemma filter_length_mono:
  "(\<And>x. P x \<Longrightarrow> Q x) \<Longrightarrow> length (filter P xs) \<le> length (filter Q xs)"
  by (induction xs) auto

lemma colored_le_not_near_white:
  "length (filter (\<lambda>(x, y). is_colored (At img x y)) ps)
     \<le> length (filter (\<lambda>(x, y). not_near_white (At img x y)) ps)"
  by (rule filter_length_mono) (auto dest: colored_not_near_white)

lemma IsNearlyBlankOrBlack_counts:
  "IsNearlyBlankOrBlack i = (snd (sample_counts i) < 5 \<or> fst (sample_counts i) < 3)"
  by (simp add: IsNearlyBlankOrBlack_def sample_counts_def Let_def split: option.splits prod.splits)

lemma IsNearlyBlank_colored_le:
  assumes "IsNearlyBlank i"
  shows "fst (sample_counts i) \<le> 3"
proof (cases i)
  case None
  then show ?thesis by (simp add: sample_counts_def)
next
  case (Some img)
  show ?thesis
  proof (cases "Dx (Bounds img) \<le> 0 \<or> Dy (Bounds img) \<le> 0")
    case True
    then show ?thesis using Some by (auto simp: sample_counts_def Let_def)
  next
    case False
    let ?ps = "samples (Bounds img) (max (Dx (Bounds img) div 20) 1) (max (Dy (Bounds img) div 20) 1)"
    have "blank_loop img ?ps 0" using assms Some False by (simp add: IsNearlyBlank_def Let_def)
    then have "length (filter (\<lambda>(x, y). not_near_white (At img x y)) ?ps) \<le> 3"
      by (simp add: blank_loop_count)
    then have "length (filter (\<lambda>(x, y). is_colored (At img x y)) ?ps) \<le> 3"
      using colored_le_not_near_white[of img ?ps] by linarith
    then show ?thesis using Some False by (simp add: sample_counts_def Let_def black_loop_count)
  qed
qed

text \<open>
  \<^bold>\<open>Claim C8\<close> says that \<^verbatim>\<open>IsNearlyBlank(img)\<close> implies \<^verbatim>\<open>IsNearlyBlankOrBlack(img)\<close>.
  The thresholds of the two functions do not nest: \<^verbatim>\<open>IsNearlyBlank\<close> rejects up to 3
  opaque samples that are not near-white, \<^verbatim>\<open>IsNearlyBlankOrBlack\<close> rejects fewer than 3
  coloured samples.  An image with three red and two white opaque samples is rejected by
  the first and accepted by the second.
\<close>

theorem nearly_blank_not_stricter_counterexample:
  "IsNearlyBlank (Some three_red_two_white) \<and>
   \<not> IsNearlyBlankOrBlack (Some three_red_two_white) \<and>
   sample_counts (Some three_red_two_white) = (3, 5)"
  by code_simp

text \<open>
  \<^bold>\<open>Claim C8, amended.\<close>  If \<^verbatim>\<open>IsNearlyBlank(img)\<close> is true, the sample grid holds at
  most 3 coloured samples (opaque, neither near-black nor near-white), and
  \<^verbatim>\<open>IsNearlyBlankOrBlack(img)\<close> is true except when the grid holds exactly 3 coloured
  samples and at least 5 opaque ones; in that case it is false.
\<close>

theorem nearly_blank_implies_blank_or_black_except:
  assumes "IsNearlyBlank i"
  shows "fst (sample_counts i) \<le> 3 \<and>
         IsNearlyBlankOrBlack i = (\<not> (fst (sample_counts i) = 3 \<and> 5 \<le> snd (sample_counts i)))"
  using IsNearlyBlank_colored_le[OF assms]
  by (auto simp: IsNearlyBlankOrBlack_counts)

theorem nearly_blank_implies_blank_or_black_except_witness:
  "IsNearlyBlank (Some two_red_three_white) \<and>
   sample_counts (Some two_red_three_white) = (2, 5) \<and>
   IsNearlyBlankOrBlack (Some two_red_three_white) \<and>
   IsNearlyBlank (Some three_red_two_white) \<and>
   sample_counts (Some three_red_two_white) = (3, 5) \<and>
   \<not> IsNearlyBlankOrBlack (Some three_red_two_white) \<and>
   IsNearlyBlank (Some transparent_2x2) \<and>
   sample_counts (Some transparent_2x2) = (0, 0) \<and>
   IsNearlyBlankOrBlack (Some transparent_2x2)"
proof -
  have h2: "IsNearlyBlank (Some two_red_three_white)" by code_simp
  have c2: "sample_counts (Some two_red_three_white) = (2, 5)" by code_simp
  have h3: "IsNearlyBlank (Some three_red_two_white)" by code_simp
  have c3: "sample_counts (Some three_red_two_white) = (3, 5)" by code_simp
  have h0: "IsNearlyBlank (Some transparent_2x2)" by code_simp
  have c0: "sample_counts (Some transparent_2x2) = (0, 0)" by code_simp
  have r2: "IsNearlyBlankOrBlack (Some two_red_three_white)"
    using nearly_blank_implies_blank_or_black_except[OF h2] by (simp add: c2)
  have r3: "\<not> IsNearlyBlankOrBlack (Some three_red_two_white)"
    using nearly_blank_implies_blank_or_black_except[OF h3] by (simp add: c3)
  have r0: "IsNearlyBlankOrBlack (Some transparent_2x2)"
    using nearly_blank_implies_blank_or_black_except[OF h0] by (simp add: c0)
  show ?thesis using h2 c2 r2 h3 c3 r3 h0 c0 r0 by simp
qed

section \<open>Resizing\<close>

lemma Rect_origin: "0 \<le> n \<Longrightarrow> Rect 0 0 n n = \<lparr>MinX = 0, MinY = 0, MaxX = n, MaxY = n\<rparr>"
  by (simp add: Rect_def)

text \<open>
  \<^bold>\<open>Claim C9\<close> says that \<^verbatim>\<open>ResizeImage(img, n)\<close> is, for every image and every \<open>n\<close>, an
  \<open>n \<times> n\<close> image made by Catmull-Rom resampling over a transparent background.  The
  function has a guard: an image that is already \<open>n \<times> n\<close> is returned as it is, whatever
  the scaler, so nothing is resampled and the result keeps its own origin.  And for a
  negative \<open>n\<close> the destination rectangle \<^verbatim>\<open>image.Rect(0, 0, n, n)\<close> is \<open>|n|\<close> wide.
\<close>

theorem resize_guard_counterexample:
  "(\<forall>cr. ResizeImage cr red_1x1_at_5 1 = red_1x1_at_5) \<and>
   Bounds red_1x1_at_5 \<noteq> Rect 0 0 1 1 \<and>
   (\<forall>cr. Dx (Bounds (ResizeImage cr red_1x1_at_5 (- 2))) = 2)"
  by (simp add: ResizeImage_def red_1x1_at_5_def Dx_def Dy_def Rect_def NewRGBA_def Let_def)

text \<open>
  \<^bold>\<open>Claim C9, amended.\<close>  For every image and every size \<open>n \<ge> 0\<close> the result of
  \<^verbatim>\<open>ResizeImage(img, n)\<close> is \<open>n\<close> wide and \<open>n\<close> high.  An image that is already
  \<open>n \<times> n\<close> is returned unchanged; every other image is drawn by
  \<^verbatim>\<open>draw.CatmullRom.Scale\<close> with \<^verbatim>\<open>draw.Over\<close> from its full bounds onto the full
  bounds of a new, fully transparent RGBA image with the rectangle \<open>(0, 0) - (n, n)\<close>.
\<close>

theorem resize_square:
  assumes "0 \<le> n"
  shows "Dx (Bounds (ResizeImage cr img n)) = n \<and> Dy (Bounds (ResizeImage cr img n)) = n \<and>
         ResizeImage cr img n =
           (if Dx (Bounds img) = n \<and> Dy (Bounds img) = n then img
            else \<lparr>Bounds = \<lparr>MinX = 0, MinY = 0, MaxX = n, MaxY = n\<rparr>,
                  At = cr \<lparr>Bounds = \<lparr>MinX = 0, MinY = 0, MaxX = n, MaxY = n\<rparr>,
                           At = (\<lambda>x y. (0, 0, 0, 0))\<rparr>
                          \<lparr>MinX = 0, MinY = 0, MaxX = n, MaxY = n\<rparr> img (Bounds img) Over\<rparr>)"
  using assms
  by (simp add: ResizeImage_def Let_def NewRGBA_def Rect_origin Dx_def Dy_def)

theorem resize_square_witness:
  "(0::int) \<le> 2 \<and>
   Dx (Bounds (ResizeImage (\<lambda>dst dr src sr op. At src) three_red_two_white 2)) = 2 \<and>
   Dy (Bounds (ResizeImage (\<lambda>dst dr src sr op. At src) three_red_two_white 2)) = 2 \<and>
   Bounds (ResizeImage (\<lambda>dst dr src sr op. At src) three_red_two_white 2) =
     \<lparr>MinX = 0, MinY = 0, MaxX = 2, MaxY = 2\<rparr>"
  using resize_square [of 2 "\<lambda>dst dr src sr op. At src" three_red_two_white]
  by (simp add: three_red_two_white_def Dx_def Dy_def)

section \<open>Cache reads\<close>

text \<open>
  \<^bold>\<open>Claim C4.\<close>  A read of the original tier or of the resized tier reports a hit only
  when \<^verbatim>\<open>os.Stat\<close> found the payload file, its age \<open>now - mtime\<close> is at most the TTL and
  \<^verbatim>\<open>os.ReadFile\<close> found it again; the bytes of the hit are the bytes read.  When the
  stat succeeds on a fresh entry and the file is gone at the time of the read, the
  result is the miss \<open>(nil, false)\<close>; the result type has no error component.
\<close>

theorem cache_read_hit_only_when_fresh:
  "(snd (ReadOrigFromCache hash m fs_stat now fs_read url) \<longrightarrow>
      (\<exists>info b. fs_stat (filepath_Join (OrigCacheDir m) (hash (''orig|'' @ url))) = Some info \<and>
         now - mtime info \<le> TTL m \<and>
         map_option content (fs_read (filepath_Join (OrigCacheDir m) (hash (''orig|'' @ url))))
           = Some b \<and>
         ReadOrigFromCache hash m fs_stat now fs_read url = (Some b, True))) \<and>
   (fs_stat (filepath_Join (OrigCacheDir m) (hash (''orig|'' @ url))) = Some info_a \<and>
    now - mtime info_a \<le> TTL m \<and>
    fs_read (filepath_Join (OrigCacheDir m) (hash (''orig|'' @ url))) = None \<longrightarrow>
      ReadOrigFromCache hash m fs_stat now fs_read url = (None, False)) \<and>
   (fst (snd (ReadResizedFromCacheWithMod hash m fs_stat now fs_read url sz fmt)) \<longrightarrow>
      (\<exists>info b. fs_stat (ResizedCachePath hash m url sz fmt) = Some info \<and>
         now - mtime info \<le> TTL m \<and>
         map_option content (fs_read (ResizedCachePath hash m url sz fmt)) = Some b \<and>
         ReadResizedFromCacheWithMod hash m fs_stat now fs_read url sz fmt
           = (Some b, True, Some (mtime info)))) \<and>
   (fs_stat (ResizedCachePath hash m url sz fmt) = Some info_b \<and>
    now - mtime info_b \<le> TTL m \<and>
    fs_read (ResizedCachePath hash m url sz fmt) = None \<longrightarrow>
      ReadResizedFromCacheWithMod hash m fs_stat now fs_read url sz fmt = (None, False, None))"
  by (auto simp: ReadOrigFromCache_def ReadResizedFromCacheWithMod_def os_Stat_def
      os_ReadFile_def Let_def split: option.splits if_splits)

theorem cache_read_hit_only_when_fresh_witness:
  "snd (ReadOrigFromCache (\<lambda>s. ''k'') \<lparr>CacheDir = ''cache'', TTL = 100\<rparr>
          [''cache/orig/k'' \<mapsto> \<lparr>content = [1, 2], mtime = 50\<rparr>] 120
          [''cache/orig/k'' \<mapsto> \<lparr>content = [1, 2], mtime = 50\<rparr>] ''http://a/i.png'') \<and>
   ReadOrigFromCache (\<lambda>s. ''k'') \<lparr>CacheDir = ''cache'', TTL = 100\<rparr>
          [''cache/orig/k'' \<mapsto> \<lparr>content = [1, 2], mtime = 50\<rparr>] 120
          [''cache/orig/k'' \<mapsto> \<lparr>content = [1, 2], mtime = 50\<rparr>] ''http://a/i.png''
     = (Some [1, 2], True) \<and>
   ReadOrigFromCache (\<lambda>s. ''k'') \<lparr>CacheDir = ''cache'', TTL = 100\<rparr>
          [''cache/orig/k'' \<mapsto> \<lparr>content = [1, 2], mtime = 50\<rparr>] 120
          Map.empty ''http://a/i.png''
     = (None, False) \<and>
   ReadResizedFromCacheWithMod (\<lambda>s. ''k'') \<lparr>CacheDir = ''cache'', TTL = 100\<rparr>
          [''cache/resized/k.png'' \<mapsto> \<lparr>content = [7], mtime = 50\<rparr>] 120
          [''cache/resized/k.png'' \<mapsto> \<lparr>content = [7], mtime = 50\<rparr>] ''http://a/i.png'' 32 ''png''
     = (Some [7], True, Some 50) \<and>
   ReadResizedFromCacheWithMod (\<lambda>s. ''k'') \<lparr>CacheDir = ''cache'', TTL = 100\<rparr>
          [''cache/resized/k.png'' \<mapsto> \<lparr>content = [7], mtime = 50\<rparr>] 120
          Map.empty ''http://a/i.png'' 32 ''png''
     = (None, False, None)"
  using cache_read_hit_only_when_fresh
    [where hash = "\<lambda>s. ''k''" and m = "\<lparr>CacheDir = ''cache'', TTL = 100\<rparr>"
       and fs_stat = "[''cache/orig/k'' \<mapsto> \<lparr>content = [1, 2], mtime = 50\<rparr>]"
       and fs_read = "[''cache/orig/k'' \<mapsto> \<lparr>content = [1, 2], mtime = 50\<rparr>]"
       and now = 120 and url = "''http://a/i.png''"]
    cache_read_hit_only_when_fresh
    [where hash = "\<lambda>s. ''k''" and m = "\<lparr>CacheDir = ''cache'', TTL = 100\<rparr>"
       and fs_stat = "[''cache/orig/k'' \<mapsto> \<lparr>content = [1, 2], mtime = 50\<rparr>]"
       and fs_read = "Map.empty" and info_a = "\<lparr>content = [1, 2], mtime = 50\<rparr>"
       and now = 120 and url = "''http://a/i.png''"]
  by (simp add: ReadOrigFromCache_def ReadResizedFromCacheWithMod_def os_Stat_def
      os_ReadFile_def Let_def OrigCacheDir_def ResizedCacheDir_def ResizedCachePath_def
      filepath_Join_def)

section \<open>Atomic writes\<close>









text \<open>
  The clean-up is \<^verbatim>\<open>_ = os.Remove(tmpName)\<close>: when that call fails too, the temporary
  file stays behind (the janitor sweeps such files).
\<close>

lemma failed_cleanup_leaves_temp:
  assumes "os_CreateTemp env (filepath_Dir p) fs = (Inr tmpName, fs1)"
    and "sync_fails env = Some err" and "write_fails env = None" and "remove_fails env"
  shows "fst (snd (atomicWriteFile env p data fs)) tmpName
           = Some \<lparr>content = data, mtime = clock env\<rparr>"
  using assms by (simp add: atomicWriteFile_def Let_def deferred_Remove_def)



section \<open>Client address\<close>

lemma parseIP_first_entry: "parseIP ok s = (if ok (first_entry s) then first_entry s else [])"
  by (simp add: parseIP_def first_entry_def Let_def)

lemma first_entry_Nil: "first_entry [] = []"
  by (simp add: first_entry_def trimSpace_def)

lemma header_cascade:
  "(if hx \<noteq> [] \<and> parseIP ok hx \<noteq> [] then parseIP ok hx
    else if hy \<noteq> [] \<and> parseIP ok hy \<noteq> [] then parseIP ok hy else d) =
   (if first_entry hx \<noteq> [] \<and> ok (first_entry hx) then first_entry hx
    else if first_entry hy \<noteq> [] \<and> ok (first_entry hy) then first_entry hy else d)"
proof -
  have x: "(hx \<noteq> [] \<and> parseIP ok hx \<noteq> []) = (first_entry hx \<noteq> [] \<and> ok (first_entry hx))"
    using first_entry_Nil by (auto simp: parseIP_first_entry)
  have y: "(hy \<noteq> [] \<and> parseIP ok hy \<noteq> []) = (first_entry hy \<noteq> [] \<and> ok (first_entry hy))"
    using first_entry_Nil by (auto simp: parseIP_first_entry)
  show ?thesis
    unfolding x y by (simp add: parseIP_first_entry)
qed

lemma getClientIP_first_entries:
  "getClientIP ok split r =
     (if first_entry (HeaderGet r ''X-Forwarded-For'') \<noteq> [] \<and>
         ok (first_entry (HeaderGet r ''X-Forwarded-For''))
      then first_entry (HeaderGet r ''X-Forwarded-For'')
      else if first_entry (HeaderGet r ''X-Real-IP'') \<noteq> [] \<and>
              ok (first_entry (HeaderGet r ''X-Real-IP''))
      then first_entry (HeaderGet r ''X-Real-IP'')
      else (case split (RemoteAddr r) of Inl err \<Rightarrow> RemoteAddr r | Inr (host, port) \<Rightarrow> host))"
  unfolding getClientIP_def Let_def by (rule header_cascade)

text \<open>
  \<^bold>\<open>Claim C7\<close> says that \<^verbatim>\<open>getClientIP\<close> returns the first valid address among the
  comma-separated entries of \<^verbatim>\<open>X-Forwarded-For\<close>, and that its result is a valid IP
  address or the raw remote address.  \<^verbatim>\<open>parseIP\<close> looks at the first entry only: with
  the header \<^verbatim>\<open>unknown, 203.0.113.7\<close> the first valid entry is \<^verbatim>\<open>203.0.113.7\<close>, but the
  header is given up and the result is the host of the remote address.  And the host
  that \<^verbatim>\<open>net.SplitHostPort\<close> cuts out of the remote address is returned without
  validation: for the link-local peer \<^verbatim>\<open>[fe80::1%eth0]:51234\<close> the result is
  \<^verbatim>\<open>fe80::1%eth0\<close>, which \<^verbatim>\<open>net.ParseIP\<close> does not accept and which is not the raw
  remote address.
\<close>

theorem client_ip_counterexample:
  "HeaderGet req_first_entry_unknown ''X-Forwarded-For'' = ''unknown, 203.0.113.7'' \<and>
   first_valid_entry net_ParseIP_ok ''unknown, 203.0.113.7'' = Some ''203.0.113.7'' \<and>
   getClientIP net_ParseIP_ok net_SplitHostPort req_first_entry_unknown = ''10.0.0.1'' \<and>
   RemoteAddr req_link_local = ''[fe80::1%eth0]:51234'' \<and>
   getClientIP net_ParseIP_ok net_SplitHostPort req_link_local = ''fe80::1%eth0'' \<and>
   \<not> net_ParseIP_ok ''fe80::1%eth0''"
proof (intro conjI)
  show "HeaderGet req_first_entry_unknown ''X-Forwarded-For'' = ''unknown, 203.0.113.7''"
    by (simp add: req_first_entry_unknown_def)
  show "first_valid_entry net_ParseIP_ok ''unknown, 203.0.113.7'' = Some ''203.0.113.7''"
    by code_simp
  show "getClientIP net_ParseIP_ok net_SplitHostPort req_first_entry_unknown = ''10.0.0.1''"
    by code_simp
  show "RemoteAddr req_link_local = ''[fe80::1%eth0]:51234''"
    by (simp add: req_link_local_def)
  show "getClientIP net_ParseIP_ok net_SplitHostPort req_link_local = ''fe80::1%eth0''"
    by code_simp
  show "\<not> net_ParseIP_ok ''fe80::1%eth0''"
    by code_simp
qed

text \<open>
  \<^bold>\<open>Claim C7, amended.\<close>  For every request, with any validator in the place of
  \<^verbatim>\<open>net.ParseIP\<close> and any splitter in the place of \<^verbatim>\<open>net.SplitHostPort\<close>: \<^verbatim>\<open>getClientIP\<close>
  returns the text of \<^verbatim>\<open>X-Forwarded-For\<close> before its first comma, trimmed of spaces and
  tabs (\<open>first_entry\<close>), when that text is not empty and valid (later entries are never looked at); else
  the same of \<^verbatim>\<open>X-Real-IP\<close>; else the host part of the remote address when
  \<^verbatim>\<open>net.SplitHostPort\<close> succeeds, and the raw remote address when it fails.  The result
  is a valid address, or the host part of the remote address, or the raw remote address.
\<close>

theorem client_ip_cascade:
  "getClientIP ok split r =
     (if first_entry (HeaderGet r ''X-Forwarded-For'') \<noteq> [] \<and>
         ok (first_entry (HeaderGet r ''X-Forwarded-For''))
      then first_entry (HeaderGet r ''X-Forwarded-For'')
      else if first_entry (HeaderGet r ''X-Real-IP'') \<noteq> [] \<and>
              ok (first_entry (HeaderGet r ''X-Real-IP''))
      then first_entry (HeaderGet r ''X-Real-IP'')
      else (case split (RemoteAddr r) of Inl err \<Rightarrow> RemoteAddr r | Inr (host, port) \<Rightarrow> host)) \<and>
   first_entry (HeaderGet r ''X-Forwarded-For'') =
     trimSpace (takeWhile (\<lambda>c. c \<noteq> CHR '','') (HeaderGet r ''X-Forwarded-For'')) \<and>
   (ok (getClientIP ok split r) \<or>
    (\<exists>host port. split (RemoteAddr r) = Inr (host, port) \<and> getClientIP ok split r = host) \<or>
    getClientIP ok split r = RemoteAddr r)"
proof (intro conjI)
  show "getClientIP ok split r =
     (if first_entry (HeaderGet r ''X-Forwarded-For'') \<noteq> [] \<and>
         ok (first_entry (HeaderGet r ''X-Forwarded-For''))
      then first_entry (HeaderGet r ''X-Forwarded-For'')
      else if first_entry (HeaderGet r ''X-Real-IP'') \<noteq> [] \<and>
              ok (first_entry (HeaderGet r ''X-Real-IP''))
      then first_entry (HeaderGet r ''X-Real-IP'')
      else (case split (RemoteAddr r) of Inl err \<Rightarrow> RemoteAddr r | Inr (host, port) \<Rightarrow> host))"
    by (rule getClientIP_first_entries)
  show "first_entry (HeaderGet r ''X-Forwarded-For'') =
     trimSpace (takeWhile (\<lambda>c. c \<noteq> CHR '','') (HeaderGet r ''X-Forwarded-For''))"
    by (simp add: first_entry_def)
  show "ok (getClientIP ok split r) \<or>
    (\<exists>host port. split (RemoteAddr r) = Inr (host, port) \<and> getClientIP ok split r = host) \<or>
    getClientIP ok split r = RemoteAddr r"
  proof (cases "split (RemoteAddr r)")
    case (Inl err)
    then show ?thesis unfolding getClientIP_first_entries by simp
  next
    case (Inr hp)
    then show ?thesis unfolding getClientIP_first_entries by (cases hp) simp
  qed
qed

theorem client_ip_cascade_witness:
  "getClientIP net_ParseIP_ok net_SplitHostPort req_forwarded = ''203.0.113.7'' \<and>
   net_ParseIP_ok (getClientIP net_ParseIP_ok net_SplitHostPort req_forwarded)"
proof -
  have t: "first_entry (HeaderGet req_forwarded ''X-Forwarded-For'') = ''203.0.113.7''"
    by code_simp
  have v: "net_ParseIP_ok ''203.0.113.7''"
    by code_simp
  note A = client_ip_cascade [of net_ParseIP_ok net_SplitHostPort req_forwarded, THEN conjunct1]
  have "getClientIP net_ParseIP_ok net_SplitHostPort req_forwarded = ''203.0.113.7''"
    by (subst A) (simp add: t v)
  then show ?thesis using v by simp
qed

section \<open>Janitor: the system calls\<close>

lemma os_Remove_ignore_eq: "os_Remove_ignore p fs = fs(p := None)"
  by (auto simp: os_Remove_ignore_def os_Remove_def)

lemma os_Remove_Some: "os_Remove p fs = Some fs1 \<longleftrightarrow> fs p \<noteq> None \<and> fs1 = fs(p := None)"
  by (auto simp: os_Remove_def)

lemma os_Remove_None: "os_Remove p fs = None \<longleftrightarrow> fs p = None"
  by (auto simp: os_Remove_def)

lemma set_WalkDir: "set (WalkDir order fs) = {(p, f). p \<in> set order \<and> fs p = Some f}"
  by (auto simp: WalkDir_def)

lemma map_fst_WalkDir: "map fst (WalkDir order fs) = filter (\<lambda>p. fs p \<noteq> None) order"
  by (simp add: WalkDir_def comp_def)

lemma distinct_WalkDir: "distinct order \<Longrightarrow> distinct (map fst (WalkDir order fs))"
  by (simp add: map_fst_WalkDir)

lemma distinct_WalkDir': "distinct order \<Longrightarrow> distinct (WalkDir order fs)"
  using distinct_WalkDir distinct_map by blast

lemma kinds_exclusive:
  "is_payload p \<Longrightarrow> \<not> is_meta p" "is_payload p \<Longrightarrow> \<not> is_temp p" "is_meta p \<Longrightarrow> \<not> is_temp p"
  by (auto simp: is_payload_def is_meta_def is_temp_def)

lemma kinds_exhaustive: "isCacheFile p \<longleftrightarrow> is_payload p \<or> is_meta p \<or> is_temp p"
  by (auto simp: is_payload_def is_meta_def is_temp_def)

lemma TrimSuffix_append: "suffix suf s \<Longrightarrow> TrimSuffix s suf @ suf = s"
  by (auto simp: TrimSuffix_def suffix_def)

lemma is_meta_append: "is_meta p \<Longrightarrow> TrimSuffix p ''.meta'' @ ''.meta'' = p"
  by (simp add: is_meta_def TrimSuffix_append)

section \<open>Janitor: the first walk\<close>

lemma collect_data:
  "fst (foldl collect_step (d, t, m) ps) = d @ filter is_payload ps"
  by (induction ps arbitrary: d t m)
     (auto simp: collect_step_def Let_def is_payload_def)

lemma collect_temp:
  "fst (snd (foldl collect_step (d, t, m) ps)) = t @ filter is_temp ps"
  by (induction ps arbitrary: d t m)
     (auto simp: collect_step_def Let_def is_temp_def)

lemma collect_meta:
  "map_of (snd (snd (foldl collect_step (d, t, m) ps))) k =
     (if k @ ''.meta'' \<in> set ps \<and> is_meta (k @ ''.meta'') then Some (k @ ''.meta'')
      else map_of m k)"
proof (induction ps arbitrary: d t m)
  case Nil
  then show ?case by simp
next
  case (Cons p ps)
  show ?case
  proof (cases "is_meta p")
    case True
    then have step: "collect_step (d, t, m) p = (d, t, AList.update (TrimSuffix p ''.meta'') p m)"
      by (simp add: collect_step_def is_meta_def Let_def)
    have p: "TrimSuffix p ''.meta'' @ ''.meta'' = p" using True by (rule is_meta_append)
    have "k = TrimSuffix p ''.meta'' \<longleftrightarrow> k @ ''.meta'' = p"
      using p by auto
    then show ?thesis
      using True by (auto simp: step Cons.IH update_conv')
  next
    case False
    then have "snd (snd (collect_step (d, t, m) p)) = m"
      by (auto simp: collect_step_def is_meta_def Let_def)
    moreover obtain d' t' where "collect_step (d, t, m) p = (d', t', snd (snd (collect_step (d, t, m) p)))"
      by (cases "collect_step (d, t, m) p") auto
    ultimately have "collect_step (d, t, m) p = (d', t', m)" by simp
    then show ?thesis using False by (auto simp: Cons.IH)
  qed
qed

lemma collect_meta_distinct:
  "distinct (map fst m) \<Longrightarrow> distinct (map fst (snd (snd (foldl collect_step (d, t, m) ps))))"
proof (induction ps arbitrary: d t m)
  case Nil
  then show ?case by simp
next
  case (Cons p ps)
  obtain d' t' m' where s: "collect_step (d, t, m) p = (d', t', m')"
    by (cases "collect_step (d, t, m) p") auto
  then have "m' = m \<or> m' = AList.update (TrimSuffix p ''.meta'') p m"
    by (auto simp: collect_step_def Let_def split: if_splits)
  then have "distinct (map fst m')" using Cons.prems by (auto simp: distinct_update)
  then show ?case using Cons.IH s by simp
qed
section \<open>Janitor: the three purge loops\<close>

text \<open>The set of files a loop over \<open>ps\<close> finds older than a bound.\<close>

lemma purge_expired_char:
  assumes "distinct ps" and "\<forall>k mp. map_of m k = Some mp \<longrightarrow> mp \<notin> set ps"
  shows "fst (purge_expired eb ps (fs, m)) =
           (\<lambda>q. if q \<in> older_than eb ps fs \<or>
                    (\<exists>p \<in> older_than eb ps fs. map_of m p = Some q) then None else fs q) \<and>
         map_of (snd (purge_expired eb ps (fs, m))) =
           (\<lambda>k. if k \<in> older_than eb ps fs then None else map_of m k)"
  using assms
proof (induction ps arbitrary: fs m)
  case Nil
  then show ?case by (simp add: older_than_def)
next
  case (Cons p ps)
  have d: "distinct ps" "p \<notin> set ps" using Cons.prems(1) by simp_all
  have mps: "\<forall>k mp. map_of m k = Some mp \<longrightarrow> mp \<notin> set ps"
    using Cons.prems(2) by auto
  show ?case
  proof (cases "p \<in> older_than eb (p # ps) fs")
    case False
    then have same: "older_than eb (p # ps) fs = older_than eb ps fs"
      by (auto simp: older_than_def)
    have "purge_expired eb (p # ps) (fs, m) = purge_expired eb ps (fs, m)"
      using False by (auto simp: older_than_def os_Stat_def split: option.splits)
    then show ?thesis using Cons.IH[OF d(1) mps] same by simp
  next
    case True
    then obtain f where f: "fs p = Some f" "mtime f < eb" by (auto simp: older_than_def)
    show ?thesis
    proof (cases "map_of m p")
      case None
      let ?fs1 = "fs(p := None)"
      have step: "purge_expired eb (p # ps) (fs, m) = purge_expired eb ps (?fs1, m)"
        using f None by (simp add: os_Stat_def os_Remove_def)
      have old: "older_than eb ps ?fs1 = older_than eb ps fs"
        using d(2) by (auto simp: older_than_def)
      have all: "older_than eb (p # ps) fs = insert p (older_than eb ps fs)"
        using f by (auto simp: older_than_def)
      note IH = Cons.IH[OF d(1) mps, where fs = ?fs1, unfolded old]
      show ?thesis
        unfolding step all IH[THEN conjunct1] IH[THEN conjunct2]
        using None by (auto simp: fun_eq_iff)
    next
      case (Some mp)
      let ?fs1 = "(fs(p := None))(mp := None)"
      let ?m1 = "AList.delete p m"
      have step: "purge_expired eb (p # ps) (fs, m) = purge_expired eb ps (?fs1, ?m1)"
        using f Some by (simp add: os_Stat_def os_Remove_def os_Remove_ignore_eq)
      have mp: "mp \<notin> set ps" using Some mps by blast
      have old: "older_than eb ps ?fs1 = older_than eb ps fs"
        using d(2) mp by (auto simp: older_than_def)
      have all: "older_than eb (p # ps) fs = insert p (older_than eb ps fs)"
        using f by (auto simp: older_than_def)
      have m1: "\<forall>k mq. map_of ?m1 k = Some mq \<longrightarrow> mq \<notin> set ps"
        using mps by (auto simp: delete_conv' split: if_splits)
      note IH = Cons.IH[OF d(1) m1, where fs = ?fs1, unfolded old]
      have notin: "p \<notin> older_than eb ps fs" using d(2) by (auto simp: older_than_def)
      show ?thesis
        unfolding step all IH[THEN conjunct1] IH[THEN conjunct2]
        using Some notin by (auto simp: fun_eq_iff delete_conv')
    qed
  qed
qed

lemma purge_expired_distinct:
  "distinct (map fst m) \<Longrightarrow> distinct (map fst (snd (purge_expired eb ps (fs, m))))"
  by (induction eb ps "(fs, m)" arbitrary: fs m rule: purge_expired.induct)
     (auto simp: distinct_delete split: option.splits)

lemma purge_orphans_char:
  "purge_orphans dataFiles ms fs =
     (\<lambda>q. if \<exists>base. (base, q) \<in> set ms \<and> base \<notin> set dataFiles then None else fs q)"
proof (induction ms arbitrary: fs)
  case Nil
  then show ?case by simp
next
  case (Cons e ms)
  obtain base mp where e: "e = (base, mp)" by (cases e)
  show ?case
    unfolding e by (auto simp: Cons.IH os_Remove_ignore_eq fun_eq_iff)
qed

lemma purge_temps_char:
  assumes "distinct ps"
  shows "purge_temps te ps fs = (\<lambda>q. if q \<in> older_than te ps fs then None else fs q)"
  using assms
proof (induction ps arbitrary: fs)
  case Nil
  then show ?case by (simp add: older_than_def)
next
  case (Cons p ps)
  have d: "distinct ps" "p \<notin> set ps" using Cons.prems by simp_all
  show ?case
  proof (cases "p \<in> older_than te (p # ps) fs")
    case False
    then have same: "older_than te (p # ps) fs = older_than te ps fs"
      by (auto simp: older_than_def)
    have "purge_temps te (p # ps) fs = purge_temps te ps fs"
      using False by (auto simp: older_than_def os_Stat_def split: option.splits)
    then show ?thesis using Cons.IH[OF d(1)] same by simp
  next
    case True
    then obtain f where f: "fs p = Some f" "mtime f < te" by (auto simp: older_than_def)
    have step: "purge_temps te (p # ps) fs = purge_temps te ps (fs(p := None))"
      using f by (simp add: os_Stat_def os_Remove_ignore_eq)
    have old: "older_than te ps (fs(p := None)) = older_than te ps fs"
      using d(2) by (auto simp: older_than_def)
    have all: "older_than te (p # ps) fs = insert p (older_than te ps fs)"
      using f by (auto simp: older_than_def)
    note IH = Cons.IH[OF d(1), of "fs(p := None)", unfolded old]
    show ?thesis
      unfolding step all IH by (auto simp: fun_eq_iff)
  qed
qed
section \<open>Janitor: eviction by size\<close>

lemma size_step_payload:
  "size_step (files, tot) (p, f) =
     (if is_payload p then (files @ [entry_of (p, f)], tot + Size f) else (files, tot))"
  by (auto simp: size_step_def entry_of_def is_payload_def)

lemma size_fold:
  "foldl size_step (files, tot) es =
     (files @ map entry_of (filter (\<lambda>(p, f). is_payload p) es),
      tot + sum_list (map (\<lambda>(p, f). Size f) (filter (\<lambda>(p, f). is_payload p) es)))"
proof (induction es arbitrary: files tot)
  case Nil
  then show ?case by simp
next
  case (Cons e es)
  obtain p f where e: "e = (p, f)" by (cases e)
  show ?case
    unfolding e by (simp add: Cons.IH size_step_payload)
qed

lemma size_walk:
  "foldl size_step ([], 0) (WalkDir order fs) = (payload_entries order fs, payload_total order fs)"
  by (simp add: size_fold payload_entries_def payload_total_def)

lemma payload_total_entries:
  "payload_total order fs = sum_list (map size' (payload_entries order fs))"
  by (simp add: payload_total_def payload_entries_def comp_def entry_of_def case_prod_unfold)

lemma purgeBySizeLimit_unfold:
  "purgeBySizeLimit order maxSize fs =
     (if payload_total order fs \<le> maxSize \<or> payload_entries order fs = [] then fs
      else evict maxSize (sort_key mtime' (payload_entries order fs)) (payload_total order fs) fs)"
  by (simp add: purgeBySizeLimit_def size_walk)

lemma map_path_payload_entries:
  "map path (payload_entries order fs) = filter (\<lambda>p. is_payload p \<and> fs p \<noteq> None) order"
  by (induction order) (auto simp: payload_entries_def WalkDir_def entry_of_def)

lemma distinct_payload_entries:
  "distinct order \<Longrightarrow> distinct (map path (payload_entries order fs))"
  by (simp add: map_path_payload_entries)

lemma payload_entries_present:
  "fe \<in> set (payload_entries order fs) \<Longrightarrow>
     path fe \<in> set order \<and> is_payload (path fe) \<and>
     (\<exists>f. fs (path fe) = Some f \<and> size' fe = Size f \<and> mtime' fe = mtime f)"
  by (auto simp: payload_entries_def WalkDir_def entry_of_def)

lemma payload_entries_restrict:
  "payload_entries order (\<lambda>q. if q \<in> X then None else fs q) =
     filter (\<lambda>fe. path fe \<notin> X) (payload_entries order fs)"
  by (induction order) (auto simp: payload_entries_def WalkDir_def entry_of_def)

lemma evict_count_le: "evict_count maxSize fes tot \<le> length fes"
  by (induction fes arbitrary: tot) auto

lemma evict_count_before:
  "j < evict_count maxSize fes tot \<Longrightarrow> maxSize < tot - sum_list (map size' (take j fes))"
proof (induction fes arbitrary: tot j)
  case Nil
  then show ?case by simp
next
  case (Cons fe fes)
  show ?case
  proof (cases j)
    case 0
    then show ?thesis using Cons.prems by (auto split: if_splits)
  next
    case (Suc i)
    then have "i < evict_count maxSize fes (tot - size' fe)"
      using Cons.prems by (auto split: if_splits)
    from Cons.IH[OF this] show ?thesis using Suc by (simp add: algebra_simps)
  qed
qed

lemma evict_count_stop:
  "evict_count maxSize fes tot < length fes \<Longrightarrow>
     tot - sum_list (map size' (take (evict_count maxSize fes tot) fes)) \<le> maxSize"
proof (induction fes arbitrary: tot)
  case Nil
  then show ?case by simp
next
  case (Cons fe fes)
  show ?case
  proof (cases "tot \<le> maxSize")
    case True
    then show ?thesis by simp
  next
    case False
    then have "evict_count maxSize fes (tot - size' fe) < length fes"
      using Cons.prems by simp
    from Cons.IH[OF this] show ?thesis using False by (simp add: algebra_simps)
  qed
qed

lemma evict_char:
  assumes "\<forall>fe \<in> set fes. fs (path fe) \<noteq> None"
    and "distinct (map path fes)"
    and "\<forall>fe \<in> set fes. \<not> suffix ''.meta'' (path fe)"
  shows "evict maxSize fes tot fs =
           (\<lambda>q. if q \<in> evicted_paths (take (evict_count maxSize fes tot) fes) then None else fs q)"
  using assms
proof (induction fes arbitrary: tot fs)
  case Nil
  then show ?case by (simp add: evicted_paths_def)
next
  case (Cons fe fes)
  show ?case
  proof (cases "tot \<le> maxSize")
    case True
    then show ?thesis by (simp add: evicted_paths_def)
  next
    case False
    let ?fs2 = "(fs(path fe := None))(path fe @ ''.meta'' := None)"
    have here: "fs (path fe) \<noteq> None" using Cons.prems(1) by simp
    have step: "evict maxSize (fe # fes) tot fs = evict maxSize fes (tot - size' fe) ?fs2"
    proof (cases "(fs(path fe := None)) (path fe @ ''.meta'')")
      case None
      then have "?fs2 = fs(path fe := None)" by (rule fun_upd_idem)
      then show ?thesis
        using False here None by (auto simp: os_Remove_def os_Stat_def Let_def)
    next
      case (Some info)
      then show ?thesis
        using False here by (auto simp: os_Remove_def os_Stat_def os_Remove_ignore_eq Let_def)
    qed
    have others: "\<forall>fe' \<in> set fes. path fe' \<noteq> path fe \<and> path fe' \<noteq> path fe @ ''.meta''"
    proof
      fix fe' assume m: "fe' \<in> set fes"
      then have "path fe' \<in> path ` set fes" by (rule imageI)
      moreover have "path fe \<notin> path ` set fes" using Cons.prems(2) by simp
      ultimately have "path fe' \<noteq> path fe" by metis
      moreover have "\<not> suffix ''.meta'' (path fe')" using m Cons.prems(3) by simp
      then have "path fe' \<noteq> path fe @ ''.meta''" by (metis suffixI)
      ultimately show "path fe' \<noteq> path fe \<and> path fe' \<noteq> path fe @ ''.meta''" by simp
    qed
    have p1: "\<forall>fe' \<in> set fes. ?fs2 (path fe') \<noteq> None"
      using Cons.prems(1) others by simp
    have p2: "distinct (map path fes)" using Cons.prems(2) by simp
    have p3: "\<forall>fe' \<in> set fes. \<not> suffix ''.meta'' (path fe')" using Cons.prems(3) by simp
    note IH = Cons.IH[OF p1 p2 p3, of "tot - size' fe"]
    show ?thesis
      unfolding step IH using False
      by (auto simp: evicted_paths_def fun_eq_iff)
  qed
qed

lemma is_payload_not_meta: "is_payload p \<Longrightarrow> \<not> suffix ''.meta'' p"
  by (simp add: is_payload_def)

text \<open>
  \<^verbatim>\<open>purgeBySizeLimit\<close> as one step: with the payload files sorted by modification time,
  the first \<open>k\<close> of them go, together with their sidecars, where \<open>k\<close> is the number the
  loop counts.
\<close>

lemma purgeBySizeLimit_char:
  assumes "distinct order"
  shows "purgeBySizeLimit order maxSize fs =
     (\<lambda>q. if q \<in> evicted_paths
                  (take (evict_count maxSize (sort_key mtime' (payload_entries order fs))
                           (payload_total order fs))
                        (sort_key mtime' (payload_entries order fs)))
          then None else fs q)"
proof -
  let ?S = "sort_key mtime' (payload_entries order fs)"
  let ?tot = "payload_total order fs"
  show ?thesis
  proof (cases "?tot \<le> maxSize \<or> payload_entries order fs = []")
    case True
    then have "evict_count maxSize ?S ?tot = 0"
      by (cases ?S) auto
    then show ?thesis using True
      by (simp add: purgeBySizeLimit_unfold evicted_paths_def)
  next
    case False
    have a: "\<forall>fe \<in> set ?S. fs (path fe) \<noteq> None"
      using payload_entries_present[of _ order fs] by auto
    have "distinct (map path (payload_entries order fs))"
      using assms by (rule distinct_payload_entries)
    then have b: "distinct (map path ?S)"
      by (metis distinct_map distinct_sort set_sort)
    have c: "\<forall>fe \<in> set ?S. \<not> suffix ''.meta'' (path fe)"
      using payload_entries_present[of _ order fs] is_payload_not_meta by auto
    show ?thesis
      using False by (simp add: purgeBySizeLimit_unfold evict_char[OF a b c])
  qed
qed
lemma distinct_entries:
  "distinct order \<Longrightarrow> distinct (payload_entries order fs)"
  using distinct_payload_entries distinct_map by blast

lemma sum_sorted_entries:
  assumes "distinct order"
  shows "sum_list (map size' (sort_key mtime' (payload_entries order fs))) = payload_total order fs"
proof -
  let ?E = "payload_entries order fs"
  have "distinct ?E" using assms by (rule distinct_entries)
  then have "sum_list (map size' (sort_key mtime' ?E)) = sum size' (set (sort_key mtime' ?E))"
    by (simp add: sum_list_distinct_conv_sum_set)
  also have "\<dots> = sum size' (set ?E)" by simp
  also have "\<dots> = sum_list (map size' ?E)"
    using \<open>distinct ?E\<close> by (simp add: sum_list_distinct_conv_sum_set)
  finally show ?thesis by (simp add: payload_total_entries)
qed

lemma payload_total_after_evict:
  assumes "distinct order"
  shows "payload_total order
           (\<lambda>q. if q \<in> evicted_paths (take k (sort_key mtime' (payload_entries order fs)))
                then None else fs q)
         = sum_list (map size' (drop k (sort_key mtime' (payload_entries order fs))))"
proof -
  let ?E = "payload_entries order fs"
  let ?S = "sort_key mtime' ?E"
  let ?T = "take k ?S"
  have dE: "distinct ?E" using assms by (rule distinct_entries)
  have dS: "distinct ?S" using dE by simp
  have inj: "inj_on path (set ?E)"
    using distinct_payload_entries[OF assms, of fs] dE by (simp add: distinct_map)
  have T_sub: "set ?T \<subseteq> set ?E"
    using set_take_subset[of k ?S] by simp
  have iff: "path fe \<in> evicted_paths ?T \<longleftrightarrow> fe \<in> set ?T" if fe: "fe \<in> set ?E" for fe
  proof
    assume "path fe \<in> evicted_paths ?T"
    then consider fe' where "fe' \<in> set ?T" "path fe = path fe'"
      | fe' where "fe' \<in> set ?T" "path fe = path fe' @ ''.meta''"
      by (auto simp: evicted_paths_def)
    then show "fe \<in> set ?T"
    proof cases
      case 1
      then have "fe' \<in> set ?E" using T_sub by blast
      then have "fe = fe'" using inj fe 1(2) by (auto dest: inj_onD)
      then show ?thesis using 1(1) by simp
    next
      case 2
      have "\<not> suffix ''.meta'' (path fe)"
        using payload_entries_present[OF fe] is_payload_not_meta by blast
      then show ?thesis using 2(2) by (simp add: suffix_def)
    qed
  next
    assume "fe \<in> set ?T"
    then show "path fe \<in> evicted_paths ?T" by (auto simp: evicted_paths_def)
  qed
  have "payload_entries order (\<lambda>q. if q \<in> evicted_paths ?T then None else fs q)
          = filter (\<lambda>fe. path fe \<notin> evicted_paths ?T) ?E"
    by (rule payload_entries_restrict)
  also have "\<dots> = filter (\<lambda>fe. fe \<notin> set ?T) ?E"
    using iff by (intro filter_cong) auto
  finally have "payload_total order (\<lambda>q. if q \<in> evicted_paths ?T then None else fs q)
                  = sum_list (map size' (filter (\<lambda>fe. fe \<notin> set ?T) ?E))"
    by (simp add: payload_total_entries)
  also have "\<dots> = sum size' (set (filter (\<lambda>fe. fe \<notin> set ?T) ?E))"
    using dE by (simp add: sum_list_distinct_conv_sum_set)
  also have "set (filter (\<lambda>fe. fe \<notin> set ?T) ?E) = set (drop k ?S)"
  proof -
    have "set ?S = set ?T \<union> set (drop k ?S)"
      by (metis append_take_drop_id set_append)
    moreover have "set ?T \<inter> set (drop k ?S) = {}"
      using dS by (metis append_take_drop_id distinct_append)
    ultimately show ?thesis by auto
  qed
  also have "sum size' (set (drop k ?S)) = sum_list (map size' (drop k ?S))"
    using dS by (simp add: sum_list_distinct_conv_sum_set)
  finally show ?thesis .
qed

lemma purgeBySizeLimit_bound:
  assumes "distinct order" and "0 \<le> maxSize"
  shows "payload_total order (purgeBySizeLimit order maxSize fs) \<le> maxSize"
proof -
  let ?S = "sort_key mtime' (payload_entries order fs)"
  let ?tot = "payload_total order fs"
  let ?k = "evict_count maxSize ?S ?tot"
  have eq: "payload_total order (purgeBySizeLimit order maxSize fs)
              = sum_list (map size' (drop ?k ?S))"
    unfolding purgeBySizeLimit_char[OF assms(1)] by (rule payload_total_after_evict[OF assms(1)])
  have split: "sum_list (map size' (take ?k ?S)) + sum_list (map size' (drop ?k ?S)) = ?tot"
    using sum_sorted_entries[OF assms(1), of fs]
    by (metis append_take_drop_id map_append sum_list.append)
  show ?thesis
  proof (cases "?k < length ?S")
    case True
    from evict_count_stop[OF this] show ?thesis using eq split by linarith
  next
    case False
    then have "drop ?k ?S = []" by simp
    then show ?thesis using eq assms(2) by simp
  qed
qed

section \<open>Janitor: one pass\<close>

lemma walked_data: "is_payload q \<Longrightarrow> q \<in> set order \<Longrightarrow> fs q \<noteq> None
    \<Longrightarrow> q \<in> set (filter is_payload (filter (\<lambda>p. fs p \<noteq> None) order))"
  by simp

text \<open>
  The file system after the first three loops of \<^verbatim>\<open>purgeOnce\<close>, before the eviction
  by size.
\<close>

lemma purgeOnce_unfold:
  "purgeOnce order now1 now2 ttl maxSize fs =
     (let fs3 = before_eviction order now1 now2 ttl fs
      in if maxSize > 0 then purgeBySizeLimit order maxSize fs3 else fs3)"
  by (simp add: purgeOnce_def before_eviction_def Let_def split: prod.splits)

lemma before_eviction_post:
  assumes "distinct order"
  shows "before_eviction order now1 now2 ttl fs q = None \<or>
         before_eviction order now1 now2 ttl fs q = fs q"
    and "q \<in> set order \<Longrightarrow> is_payload q \<Longrightarrow> before_eviction order now1 now2 ttl fs q = Some f
           \<Longrightarrow> \<not> mtime f < now1 - ttl"
    and "q \<in> set order \<Longrightarrow> is_temp q \<Longrightarrow> before_eviction order now1 now2 ttl fs q = Some f
           \<Longrightarrow> \<not> mtime f < now2 - 5 * 60 * 1000000000"
    and "q \<in> set order \<Longrightarrow> is_meta q \<Longrightarrow> before_eviction order now1 now2 ttl fs q = Some f
           \<Longrightarrow> is_payload (TrimSuffix q ''.meta'') \<and>
               before_eviction order now1 now2 ttl fs (TrimSuffix q ''.meta'') \<noteq> None"
proof -
  define W where "W = filter (\<lambda>p. fs p \<noteq> None) order"
  define data where "data = filter is_payload W"
  define temp where "temp = filter is_temp W"
  define eb where "eb = now1 - ttl"
  define te where "te = now2 - 5 * 60 * 1000000000"
  have in_data: "p \<in> set data \<longleftrightarrow> p \<in> set order \<and> fs p \<noteq> None \<and> is_payload p" for p
    by (auto simp: data_def W_def)
  have in_temp: "p \<in> set temp \<longleftrightarrow> p \<in> set order \<and> fs p \<noteq> None \<and> is_temp p" for p
    by (auto simp: temp_def W_def)
  have in_W: "p \<in> set W \<longleftrightarrow> p \<in> set order \<and> fs p \<noteq> None" for p
    by (auto simp: W_def)
  obtain m where coll: "foldl collect_step ([], [], []) W = (data, temp, m)"
    using collect_data[of "[]" "[]" "[]" W] collect_temp[of "[]" "[]" "[]" W]
    unfolding data_def temp_def
    by (cases "foldl collect_step ([], [], []) W") auto
  have m_char: "map_of m k =
      (if k @ ''.meta'' \<in> set W \<and> is_meta (k @ ''.meta'') then Some (k @ ''.meta'') else None)" for k
    using collect_meta[of "[]" "[]" "[]" W k] coll by simp
  have m_dist: "distinct (map fst m)"
    using collect_meta_distinct[of "[]" "[]" "[]" W] coll by simp
  have dW: "distinct data" "distinct temp" using assms by (simp_all add: data_def temp_def W_def)
  have m_meta: "is_meta mp" if "map_of m k = Some mp" for k mp
    using that by (auto simp: m_char split: if_splits)
  have m_vals: "\<forall>k mp. map_of m k = Some mp \<longrightarrow> mp \<notin> set data"
    using m_meta kinds_exclusive(1) in_data by blast
  define Ex where "Ex = older_than eb data fs"
  obtain fs1 m1 where pe: "purge_expired eb data (fs, m) = (fs1, m1)"
    by (cases "purge_expired eb data (fs, m)")
  note pc = purge_expired_char[OF dW(1) m_vals, of eb fs, unfolded pe fst_conv snd_conv,
      folded Ex_def]
  have fs1: "fs1 q' = (if q' \<in> Ex \<or> (\<exists>p \<in> Ex. map_of m p = Some q') then None else fs q')" for q'
    using pc by simp
  have m1: "map_of m1 k = (if k \<in> Ex then None else map_of m k)" for k
    using pc by simp
  have m1_dist: "distinct (map fst m1)"
    using purge_expired_distinct[OF m_dist, of eb data fs] pe by simp
  have m1_set: "(base, mp) \<in> set m1 \<longleftrightarrow> map_of m1 base = Some mp" for base mp
    using m1_dist by simp
  define fs2 where "fs2 = purge_orphans data m1 fs1"
  have fs2: "fs2 q' = (if \<exists>base. map_of m1 base = Some q' \<and> base \<notin> set data
                       then None else fs1 q')" for q'
    by (simp add: fs2_def purge_orphans_char m1_set)
  define fs3 where "fs3 = purge_temps te temp fs2"
  have fs3: "fs3 q' = (if q' \<in> older_than te temp fs2 then None else fs2 q')" for q'
    unfolding fs3_def by (simp add: purge_temps_char[OF dW(2)])
  have be: "before_eviction order now1 now2 ttl fs = fs3"
    unfolding before_eviction_def Let_def map_fst_WalkDir W_def[symmetric] coll prod.case
      eb_def[symmetric] pe te_def[symmetric] fs2_def[symmetric] fs3_def[symmetric]
    by (rule refl)
  have mono1: "fs1 q' = None \<or> fs1 q' = fs q'" for q'
    by (simp add: fs1)
  have mono2: "fs2 q' = None \<or> fs2 q' = fs q'" for q'
    using mono1[of q'] by (auto simp: fs2)
  have mono3: "fs3 q' = None \<or> fs3 q' = fs q'" for q'
    using mono2[of q'] by (auto simp: fs3)
  have down3: "fs2 q' = None \<Longrightarrow> fs3 q' = None" for q'
    by (simp add: fs3)
  have down2: "fs1 q' = None \<Longrightarrow> fs2 q' = None" for q'
    by (simp add: fs2)
  show "before_eviction order now1 now2 ttl fs q = None \<or>
         before_eviction order now1 now2 ttl fs q = fs q"
    unfolding be by (rule mono3)
  show "\<not> mtime f < now1 - ttl"
    if q: "q \<in> set order" "is_payload q" "before_eviction order now1 now2 ttl fs q = Some f"
  proof
    assume old: "mtime f < now1 - ttl"
    have "fs q = Some f" using mono3[of q] q(3) be by auto
    then have "q \<in> Ex" using q old by (auto simp: Ex_def older_than_def in_data eb_def)
    then have "fs1 q = None" by (simp add: fs1)
    then have "fs3 q = None" using down2 down3 by blast
    then show False using q(3) be by simp
  qed
  show "\<not> mtime f < now2 - 5 * 60 * 1000000000"
    if q: "q \<in> set order" "is_temp q" "before_eviction order now1 now2 ttl fs q = Some f"
  proof
    assume old: "mtime f < now2 - 5 * 60 * 1000000000"
    have f3: "fs3 q = Some f" using q(3) be by simp
    then have f2: "fs2 q = Some f" using fs3[of q] by (auto split: if_splits)
    then have "fs q = Some f" using mono2[of q] by auto
    then have "q \<in> set temp" using q by (simp add: in_temp)
    then have "q \<in> older_than te temp fs2" using f2 old by (auto simp: older_than_def te_def)
    then have "fs3 q = None" by (simp add: fs3)
    then show False using f3 by simp
  qed
  show "is_payload (TrimSuffix q ''.meta'') \<and>
        before_eviction order now1 now2 ttl fs (TrimSuffix q ''.meta'') \<noteq> None"
    if q: "q \<in> set order" "is_meta q" "before_eviction order now1 now2 ttl fs q = Some f"
  proof -
    define b where "b = TrimSuffix q ''.meta''"
    have bq: "b @ ''.meta'' = q" unfolding b_def using q(2) by (rule is_meta_append)
    have f3: "fs3 q = Some f" using q(3) be by simp
    then have f2: "fs2 q = Some f" using fs3[of q] by (auto split: if_splits)
    then have f1: "fs1 q = Some f" using fs2[of q] by (auto split: if_splits)
    then have f0: "fs q = Some f" using mono1[of q] by auto
    have mb: "map_of m b = Some q" using q f0 bq by (simp add: m_char in_W)
    have nEx: "b \<notin> Ex"
    proof
      assume "b \<in> Ex"
      then have "fs1 q = None" using mb fs1[of q] by auto
      then show False using f1 by simp
    qed
    then have m1b: "map_of m1 b = Some q" using mb by (simp add: m1)
    have bdata: "b \<in> set data"
    proof (rule ccontr)
      assume "b \<notin> set data"
      then have "fs2 q = None" using m1b fs2[of q] by auto
      then show False using f2 by simp
    qed
    then have bp: "is_payload b" and bfs: "fs b \<noteq> None" by (simp_all add: in_data)
    have not_val: "map_of m k \<noteq> Some b" for k
      using bp kinds_exclusive(1) m_meta by blast
    have b1: "fs1 b = fs b" using nEx not_val by (simp add: fs1)
    have not_val1: "map_of m1 k \<noteq> Some b" for k
      using not_val by (simp add: m1)
    have b2: "fs2 b = fs b" using b1 not_val1 by (simp add: fs2)
    have "b \<notin> older_than te temp fs2"
      using bp kinds_exclusive(2) by (auto simp: older_than_def in_temp)
    then have "fs3 b = fs b" using b2 by (simp add: fs3)
    then show ?thesis using bp bfs be by (simp add: b_def)
  qed
qed

text \<open>
  One pass of \<^verbatim>\<open>purgeOnce\<close> of the first file, over the paths \<open>order\<close> under the root:
  it only removes files; no payload file older than \<open>now1 - ttl\<close> is left, no temp
  file older than five minutes before \<open>now2\<close>, no sidecar without its payload file,
  and with a positive limit the payload bytes are within the limit.
\<close>

lemma purgeOnce_postconditions:
  assumes "distinct order"
  shows "purgeOnce order now1 now2 ttl maxSize fs q = None \<or>
         purgeOnce order now1 now2 ttl maxSize fs q = fs q"
    and "q \<in> set order \<Longrightarrow> is_payload q \<Longrightarrow> purgeOnce order now1 now2 ttl maxSize fs q = Some f
           \<Longrightarrow> \<not> mtime f < now1 - ttl"
    and "q \<in> set order \<Longrightarrow> is_meta q \<Longrightarrow> purgeOnce order now1 now2 ttl maxSize fs q = Some f
           \<Longrightarrow> is_payload (TrimSuffix q ''.meta'') \<and>
               purgeOnce order now1 now2 ttl maxSize fs (TrimSuffix q ''.meta'') \<noteq> None"
    and "q \<in> set order \<Longrightarrow> is_temp q \<Longrightarrow> purgeOnce order now1 now2 ttl maxSize fs q = Some f
           \<Longrightarrow> \<not> mtime f < now2 - 5 * 60 * 1000000000"
    and "0 < maxSize \<Longrightarrow> payload_total order (purgeOnce order now1 now2 ttl maxSize fs) \<le> maxSize"
proof -
  define fs3 where "fs3 = before_eviction order now1 now2 ttl fs"
  define R where "R = purgeOnce order now1 now2 ttl maxSize fs"
  define E where "E = (if 0 < maxSize
      then evicted_paths
             (take (evict_count maxSize (sort_key mtime' (payload_entries order fs3))
                      (payload_total order fs3))
                   (sort_key mtime' (payload_entries order fs3)))
      else {})"
  have R_eq: "R = (if 0 < maxSize then purgeBySizeLimit order maxSize fs3 else fs3)"
    unfolding R_def fs3_def purgeOnce_unfold Let_def by (rule refl)
  have R: "R q' = (if q' \<in> E then None else fs3 q')" for q'
    unfolding R_eq E_def by (simp add: purgeBySizeLimit_char[OF assms])
  have keep: "R q' = Some g \<Longrightarrow> fs3 q' = Some g \<and> q' \<notin> E" for q' g
    by (auto simp: R split: if_splits)
  have post1: "fs3 q' = None \<or> fs3 q' = fs q'" for q'
    unfolding fs3_def by (rule before_eviction_post(1)[OF assms])
  have post2: "q' \<in> set order \<Longrightarrow> is_payload q' \<Longrightarrow> fs3 q' = Some g
      \<Longrightarrow> \<not> mtime g < now1 - ttl" for q' g
    unfolding fs3_def by (rule before_eviction_post(2)[OF assms])
  have post3: "q' \<in> set order \<Longrightarrow> is_temp q' \<Longrightarrow> fs3 q' = Some g
      \<Longrightarrow> \<not> mtime g < now2 - 5 * 60 * 1000000000" for q' g
    unfolding fs3_def by (rule before_eviction_post(3)[OF assms])
  have post4: "q' \<in> set order \<Longrightarrow> is_meta q' \<Longrightarrow> fs3 q' = Some g
      \<Longrightarrow> is_payload (TrimSuffix q' ''.meta'') \<and> fs3 (TrimSuffix q' ''.meta'') \<noteq> None" for q' g
    unfolding fs3_def by (rule before_eviction_post(4)[OF assms])
  have E_cases: "p \<in> E \<Longrightarrow> p @ ''.meta'' \<in> E \<or> suffix ''.meta'' p" for p
    by (auto simp: E_def evicted_paths_def suffixI split: if_splits)
  show "purgeOnce order now1 now2 ttl maxSize fs q = None \<or>
        purgeOnce order now1 now2 ttl maxSize fs q = fs q"
    using post1[of q] by (auto simp: R_def[symmetric] R)
  show "\<not> mtime f < now1 - ttl"
    if "q \<in> set order" "is_payload q" "purgeOnce order now1 now2 ttl maxSize fs q = Some f"
    using that keep[of q f] post2[of q f] by (simp add: R_def[symmetric])
  show "\<not> mtime f < now2 - 5 * 60 * 1000000000"
    if "q \<in> set order" "is_temp q" "purgeOnce order now1 now2 ttl maxSize fs q = Some f"
    using that keep[of q f] post3[of q f] by (simp add: R_def[symmetric])
  show "is_payload (TrimSuffix q ''.meta'') \<and>
        purgeOnce order now1 now2 ttl maxSize fs (TrimSuffix q ''.meta'') \<noteq> None"
    if q: "q \<in> set order" "is_meta q" "purgeOnce order now1 now2 ttl maxSize fs q = Some f"
  proof -
    define b where "b = TrimSuffix q ''.meta''"
    have bq: "b @ ''.meta'' = q" unfolding b_def using q(2) by (rule is_meta_append)
    have k: "fs3 q = Some f" "q \<notin> E" using keep[of q f] q(3) by (simp_all add: R_def)
    have b3: "is_payload b" "fs3 b \<noteq> None" using post4[OF q(1,2) k(1)] by (simp_all add: b_def)
    have "b \<notin> E" using E_cases[of b] bq k(2) is_payload_not_meta[OF b3(1)] by auto
    then have "R b \<noteq> None" using b3(2) by (simp add: R)
    then show ?thesis using b3(1) by (simp add: b_def R_def)
  qed
  show "payload_total order (purgeOnce order now1 now2 ttl maxSize fs) \<le> maxSize"
    if "0 < maxSize"
    using that purgeBySizeLimit_bound[OF assms, of maxSize fs3]
    by (simp add: R_def[symmetric] R_eq)
qed

text \<open>
  The eviction of the first file, in the order of the claim: the files that go are the
  \<open>k\<close> oldest payload files and their sidecars; before each of them went the payload
  bytes were above the limit; and the loop stops at the first total within the limit.
\<close>

lemma purgeBySizeLimit_oldest_first:
  fixes order :: "string list" and fs :: fs and maxSize :: int
  assumes "distinct order"
  defines "S \<equiv> sort_key mtime' (payload_entries order fs)"
  defines "k \<equiv> evict_count maxSize S (payload_total order fs)"
  shows "sorted (map mtime' S)"
    and "purgeBySizeLimit order maxSize fs q =
           (if q \<in> evicted_paths (take k S) then None else fs q)"
    and "j < k \<Longrightarrow> maxSize < payload_total order fs - sum_list (map size' (take j S))"
    and "k < length S \<Longrightarrow> payload_total order fs - sum_list (map size' (take k S)) \<le> maxSize"
    and "payload_total order fs \<le> maxSize \<Longrightarrow> purgeBySizeLimit order maxSize fs = fs"
proof -
  show "sorted (map mtime' S)" unfolding S_def by simp
  show "purgeBySizeLimit order maxSize fs q =
           (if q \<in> evicted_paths (take k S) then None else fs q)"
    unfolding S_def k_def by (simp add: purgeBySizeLimit_char[OF assms(1)])
  show "maxSize < payload_total order fs - sum_list (map size' (take j S))" if "j < k"
    using that unfolding k_def by (rule evict_count_before)
  show "payload_total order fs - sum_list (map size' (take k S)) \<le> maxSize" if "k < length S"
    using that unfolding k_def by (rule evict_count_stop)
  show "purgeBySizeLimit order maxSize fs = fs" if "payload_total order fs \<le> maxSize"
  proof -
    have "evict_count maxSize S (payload_total order fs) = 0"
      using that by (cases S) simp_all
    then show ?thesis
      unfolding purgeBySizeLimit_char[OF assms(1)] S_def[symmetric]
      by (simp add: evicted_paths_def)
  qed
qed

section \<open>Janitor: the two files on one cache root\<close>

lemma sample_order_distinct: "distinct sample_order"
  by (simp add: sample_order_def)

lemma sample_kinds:
  "is_temp ''c/orig/.tmp-9''" "is_meta ''c/orig/gone.meta''" "is_payload ''c/orig/b''"
  "is_meta ''c/orig/b.meta''" "is_payload ''c/resized/r.png''"
  by code_simp+

lemma sample_payload_total: "payload_total sample_order sample_root = 10"
  by code_simp

text \<open>
  Claim C2.  The pass of the second file (src/unnamed/part\_002), at 100 minutes with a
  TTL of 60 minutes and no size limit, over \<^const>\<open>sample_root\<close>: the temp file
  \<^verbatim>\<open>c/orig/.tmp-9\<close>, 20 minutes old, stays, and so does the sidecar
  \<^verbatim>\<open>c/orig/gone.meta\<close>, whose payload file \<^verbatim>\<open>c/orig/gone\<close> is not there.  With a limit
  of 5 bytes it leaves two sidecars and no payload file.  The pass of the first file
  (src/unnamed/part\_003) leaves neither on the same root.
\<close>

theorem purgeOnce_part002_leaves_temp_and_orphan:
  "filter (\<lambda>p. purgeOnce_part002 sample_order (100 * minute) (60 * minute) 0 sample_root p \<noteq> None)
       sample_order
     = [''c/orig/.tmp-9'', ''c/orig/a'', ''c/orig/a.meta'', ''c/orig/b'', ''c/orig/b.meta'',
        ''c/orig/gone.meta'']
   \<and> filter (\<lambda>p. purgeOnce_part002 sample_order (100 * minute) (60 * minute) 5 sample_root p \<noteq> None)
       sample_order
     = [''c/orig/b.meta'', ''c/orig/gone.meta'']
   \<and> filter (\<lambda>p. purgeOnce sample_order (100 * minute) (100 * minute) (60 * minute) 0
                       sample_root p \<noteq> None)
       sample_order
     = [''c/orig/a'', ''c/orig/a.meta'', ''c/orig/b'', ''c/orig/b.meta'']
   \<and> filter (\<lambda>p. purgeOnce sample_order (100 * minute) (100 * minute) (60 * minute) 5
                       sample_root p \<noteq> None)
       sample_order
     = [''c/orig/b'', ''c/orig/b.meta'']"
proof (intro conjI)
  show "filter (\<lambda>p. purgeOnce_part002 sample_order (100 * minute) (60 * minute) 0 sample_root p \<noteq> None)
       sample_order
     = [''c/orig/.tmp-9'', ''c/orig/a'', ''c/orig/a.meta'', ''c/orig/b'', ''c/orig/b.meta'',
        ''c/orig/gone.meta'']"
    by code_simp
  show "filter (\<lambda>p. purgeOnce_part002 sample_order (100 * minute) (60 * minute) 5 sample_root p \<noteq> None)
       sample_order
     = [''c/orig/b.meta'', ''c/orig/gone.meta'']"
    by code_simp
  show "filter (\<lambda>p. purgeOnce sample_order (100 * minute) (100 * minute) (60 * minute) 0
                       sample_root p \<noteq> None)
       sample_order
     = [''c/orig/a'', ''c/orig/a.meta'', ''c/orig/b'', ''c/orig/b.meta'']"
    by code_simp
  show "filter (\<lambda>p. purgeOnce sample_order (100 * minute) (100 * minute) (60 * minute) 5
                       sample_root p \<noteq> None)
       sample_order
     = [''c/orig/b'', ''c/orig/b.meta'']"
    by code_simp
qed

text \<open>
  Claim C5.  The eviction of the second file (src/unnamed/part\_002) over
  \<^const>\<open>sample_root\<close>, whose payload files hold 10 bytes.  With a limit of 13 bytes it
  removes the payload file \<^verbatim>\<open>c/resized/r.png\<close>: its total counts the sidecars and the
  temp file.  With a limit of 5 bytes it removes \<^verbatim>\<open>c/orig/b\<close> and leaves the sidecar
  \<^verbatim>\<open>c/orig/b.meta\<close>.  The eviction of the first file (src/unnamed/part\_003) removes
  nothing at 13 bytes, and at 5 bytes the two oldest payload files with the one sidecar
  they have.
\<close>

theorem purgeBySizeLimit_part002_counts_all_files:
  "filter (\<lambda>p. purgeBySizeLimit_part002 sample_order 13 sample_root p \<noteq> None) sample_order
     = [''c/orig/.tmp-9'', ''c/orig/a'', ''c/orig/a.meta'', ''c/orig/b'', ''c/orig/b.meta'',
        ''c/orig/gone.meta'']
   \<and> filter (\<lambda>p. purgeBySizeLimit_part002 sample_order 5 sample_root p \<noteq> None) sample_order
     = [''c/orig/b.meta'', ''c/orig/gone.meta'']
   \<and> filter (\<lambda>p. purgeBySizeLimit sample_order 13 sample_root p \<noteq> None) sample_order
     = sample_order
   \<and> filter (\<lambda>p. purgeBySizeLimit sample_order 5 sample_root p \<noteq> None) sample_order
     = [''c/orig/.tmp-9'', ''c/orig/b'', ''c/orig/b.meta'', ''c/orig/gone.meta'']
   \<and> payload_total sample_order sample_root = 10"
proof (intro conjI)
  show "filter (\<lambda>p. purgeBySizeLimit_part002 sample_order 13 sample_root p \<noteq> None) sample_order
     = [''c/orig/.tmp-9'', ''c/orig/a'', ''c/orig/a.meta'', ''c/orig/b'', ''c/orig/b.meta'',
        ''c/orig/gone.meta'']"
    by code_simp
  show "filter (\<lambda>p. purgeBySizeLimit_part002 sample_order 5 sample_root p \<noteq> None) sample_order
     = [''c/orig/b.meta'', ''c/orig/gone.meta'']"
    by code_simp
  show "filter (\<lambda>p. purgeBySizeLimit sample_order 13 sample_root p \<noteq> None) sample_order
     = sample_order"
    by code_simp
  show "filter (\<lambda>p. purgeBySizeLimit sample_order 5 sample_root p \<noteq> None) sample_order
     = [''c/orig/.tmp-9'', ''c/orig/b'', ''c/orig/b.meta'', ''c/orig/gone.meta'']"
    by code_simp
  show "payload_total sample_order sample_root = 10"
    by code_simp
qed

end
